theory Spec2Isabelle
  imports Main "HOL-Library.Sublist"
begin

section \<open>Values, strings and the Python runtime\<close>

text \<open>
  The program works on parsed JSON. A Python \<open>dict\<close> is an association list read
  through \<open>map_of\<close>, a Python \<open>str\<close> is a \<open>string\<close> whose characters stand for the
  code points U+0000 to U+00FF, and Python's \<open>None\<close> is \<open>JNull\<close>. JSON numbers are
  integers here: the program only tests a number for truth and otherwise formats it
  or raises on it.
\<close>

datatype json =
    JNull
  | JBool bool
  | JNum int
  | JStr string
  | JArr "json list"
  | JObj "(string \<times> json) list"

type_synonym dict = "(string \<times> json) list"

text \<open>
  The exceptions the program meets. \<open>IOError\<close> is Python's \<open>OSError\<close>, of which
  \<open>FileExistsError\<close> is a subclass; \<open>JSONDecodeError\<close> and \<open>UnicodeDecodeError\<close> are
  two unrelated subclasses of \<open>ValueError\<close>.
\<close>

datatype error =
    TypeError | AttributeError | FileExistsError | ReError | Unmodelled
  | JSONDecodeError | IOError | UnicodeDecodeError | RecursionError

text \<open>Truth value of an object, as \<open>if x\<close>, \<open>not x\<close>, \<open>x or y\<close> test it.\<close>

fun truthy :: "json \<Rightarrow> bool" where
  "truthy JNull = False"
| "truthy (JBool b) = b"
| "truthy (JNum n) = (n \<noteq> 0)"
| "truthy (JStr s) = (s \<noteq> [])"
| "truthy (JArr xs) = (xs \<noteq> [])"
| "truthy (JObj kvs) = (kvs \<noteq> [])"

definition py_or :: "json \<Rightarrow> json \<Rightarrow> json" where
  "py_or a b = (if truthy a then a else b)"

text \<open>\<open>d.get(k)\<close> and \<open>d.get(k, default)\<close> on a dict.\<close>

definition dict_get :: "dict \<Rightarrow> string \<Rightarrow> json" where
  "dict_get d k = (case map_of d k of None \<Rightarrow> JNull | Some v \<Rightarrow> v)"

definition dict_get_default :: "dict \<Rightarrow> string \<Rightarrow> json \<Rightarrow> json" where
  "dict_get_default d k dflt = (case map_of d k of None \<Rightarrow> dflt | Some v \<Rightarrow> v)"

text \<open>The keys of a dict, in the order of their first insertion.\<close>

definition dict_keys :: "dict \<Rightarrow> string list" where
  "dict_keys d = rev (remdups (rev (map fst d)))"

lemma size_dict_get: "k \<in> set (map fst a) \<Longrightarrow> size (dict_get a k) < size (JObj a)"
proof (induction a)
  case Nil
  then show ?case by simp
next
  case (Cons p a)
  show ?case
  proof (cases "k = fst p")
    case True
    then show ?thesis by (cases p) (simp add: dict_get_def)
  next
    case False
    with Cons.prems have "k \<in> set (map fst a)" by auto
    from Cons.IH[OF this] False show ?thesis by (cases p) (simp add: dict_get_def)
  qed
qed

lemma size_dict_get_keys:
  "k \<in> set (dict_keys a) \<Longrightarrow>
     size (dict_get a k) < Suc (size_list (size_prod (\<lambda>_. 0) size) a)"
  using size_dict_get[of k a] by (simp add: dict_keys_def)

text \<open>
  \<open>x == y\<close> on parsed JSON: a bool equals the number of the same value, lists are
  compared element by element, dicts key by key whatever the order of the keys.
\<close>

fun num_of :: "json \<Rightarrow> int option" where
  "num_of (JBool b) = Some (if b then 1 else 0)"
| "num_of (JNum n) = Some n"
| "num_of _ = None"

function py_eq :: "json \<Rightarrow> json \<Rightarrow> bool" where
  "py_eq (JArr xs) y = (case y of JArr ys \<Rightarrow> list_all2 py_eq xs ys | _ \<Rightarrow> False)"
| "py_eq (JObj a) y =
     (case y of
        JObj b \<Rightarrow> set (dict_keys a) = set (dict_keys b)
                 \<and> list_all (\<lambda>k. py_eq (dict_get a k) (dict_get b k)) (dict_keys a)
      | _ \<Rightarrow> False)"
| "py_eq (JStr s) y = (y = JStr s)"
| "py_eq JNull y = (y = JNull)"
| "py_eq (JBool b) y = (num_of y = Some (if b then 1 else 0))"
| "py_eq (JNum n) y = (num_of y = Some n)"
  by pat_completeness auto
termination
  apply (relation "measure (\<lambda>(x, y). size x)")
    apply simp
   apply (simp add: less_Suc_eq_le size_list_estimation')
  apply (simp add: size_dict_get_keys)
  done

text \<open>
  The library functions the program calls are parameters. \<open>json.load\<close> on an opened
  file, given what the file holds, answers the parsed value or the exception it
  raises: \<open>JSONDecodeError\<close> on a text that is no JSON, \<open>UnicodeDecodeError\<close> on bytes
  that are no text in the encoding of the locale, \<open>RecursionError\<close> on a nesting that
  is too deep, an \<open>IOError\<close> when the file cannot be read. The others are \<open>json.dump\<close>
  with \<open>indent=2\<close>, and \<open>repr\<close>, which an f-string applies to every value that is
  not a \<open>str\<close>.
\<close>

record pylib =
  json_load :: "string \<Rightarrow> error + json"
  json_dump :: "json \<Rightarrow> string"
  py_repr :: "json \<Rightarrow> string"

definition py_format :: "pylib \<Rightarrow> json \<Rightarrow> string" where
  "py_format lib v = (case v of JStr s \<Rightarrow> s | _ \<Rightarrow> py_repr lib v)"

text \<open>\<open>sep.join(xs)\<close> on a list of strings.\<close>

fun join :: "string \<Rightarrow> string list \<Rightarrow> string" where
  "join sep [] = []"
| "join sep [x] = x"
| "join sep (x # y # ys) = x @ sep @ join sep (y # ys)"

text \<open>\<open>str.isspace\<close> of one character, which is also the class \<open>\s\<close> of \<open>re\<close> on \<open>str\<close>.\<close>

definition py_isspace :: "char \<Rightarrow> bool" where
  "py_isspace c = (of_char c \<in> {9, 10, 11, 12, 13, 28, 29, 30, 31, 32, 133, 160 :: nat})"

section \<open>Folder names\<close>

text \<open>
  The class of the first substitution of \<open>sanitize_filename\<close>: the characters
  \<^verbatim>\<open>< > : " / \ | ? *\<close> (the double quote is \<open>0x22\<close>, the backslash \<open>0x5C\<close>).
\<close>

definition hostile :: "char \<Rightarrow> bool" where
  "hostile c =
     (c \<in> {CHR ''<'', CHR ''>'', CHR '':'', CHR 0x22, CHR ''/'', CHR 0x5C, CHR ''|'', CHR ''?'',
           CHR ''*''})"

text \<open>The class \<open>[\s-]\<close> of the second substitution.\<close>

definition space_or_dash :: "char \<Rightarrow> bool" where
  "space_or_dash c = (py_isspace c \<or> c = CHR ''-'')"

text \<open>\<open>re.sub(r"[\s-]+", "-", name)\<close>: every maximal run of the class becomes one dash.\<close>

function sub_runs :: "string \<Rightarrow> string" where
  "sub_runs [] = []"
| "sub_runs (c # cs) =
     (if space_or_dash c then CHR ''-'' # sub_runs (dropWhile space_or_dash cs)
      else c # sub_runs cs)"
  by pat_completeness auto
termination
  by (relation "measure length") (auto simp: less_Suc_eq_le length_dropWhile_le)

text \<open>\<open>s.strip("- ")\<close> and \<open>s.rstrip("- ")\<close>.\<close>

definition dash_or_blank :: "char \<Rightarrow> bool" where
  "dash_or_blank c = (c = CHR ''-'' \<or> c = CHR '' '')"

definition rstrip_dash :: "string \<Rightarrow> string" where
  "rstrip_dash s = rev (dropWhile dash_or_blank (rev s))"

definition strip_dash :: "string \<Rightarrow> string" where
  "strip_dash s = rstrip_dash (dropWhile dash_or_blank s)"

definition sanitize_filename :: "string \<Rightarrow> nat \<Rightarrow> string" where
  "sanitize_filename name max_length =
     (let name1 = map (\<lambda>c. if hostile c then CHR ''-'' else c) name;
          name2 = sub_runs name1;
          name3 = strip_dash name2;
          name4 = (if length name3 > max_length then rstrip_dash (take max_length name3)
                   else name3)
      in if name4 = [] then ''Untitled'' else name4)"

text \<open>
  \<open>x[:n]\<close>, as in \<open>(doc.get("created_at") or "")[:10]\<close>: a string and a list are sliced,
  every other true value raises (a number or a bool is not subscriptable, a dict takes
  no slice as a key). The f-string then formats what is left.
\<close>

definition slice_upto :: "nat \<Rightarrow> json \<Rightarrow> error + json" where
  "slice_upto n v =
     (case v of JStr s \<Rightarrow> Inr (JStr (take n s)) | JArr xs \<Rightarrow> Inr (JArr (take n xs))
      | _ \<Rightarrow> Inl TypeError)"

text \<open>\<open>re.sub\<close> raises \<open>TypeError\<close> on a title that is true and not a string.\<close>

definition make_folder_name :: "pylib \<Rightarrow> dict \<Rightarrow> error + string" where
  "make_folder_name lib doc =
     (case slice_upto 10 (py_or (dict_get doc ''created_at'') (JStr [])) of
        Inl e \<Rightarrow> Inl e
      | Inr sliced \<Rightarrow>
          (let created = py_or sliced (JStr ''unknown-date'') in
           case py_or (dict_get doc ''title'') (JStr ''Untitled'') of
             JStr t \<Rightarrow> Inr (py_format lib created @ ''_'' @ sanitize_filename t 50)
           | _ \<Rightarrow> Inl TypeError))"

section \<open>People\<close>

text \<open>Sequencing of calls that may raise.\<close>

definition then_do :: "error + 'a \<Rightarrow> ('a \<Rightarrow> error + 'b) \<Rightarrow> error + 'b" where
  "then_do r f = (case r of Inl e \<Rightarrow> Inl e | Inr v \<Rightarrow> f v)"

text \<open>
  \<open>for x in v\<close>: a list gives its elements, a string its characters, a dict its keys in
  the order of their first insertion; anything else is not iterable.
\<close>

definition py_iter :: "json \<Rightarrow> error + json list" where
  "py_iter v =
     (case v of JArr xs \<Rightarrow> Inr xs
      | JStr s \<Rightarrow> Inr (map (\<lambda>c. JStr [c]) s)
      | JObj d \<Rightarrow> Inr (map JStr (dict_keys d))
      | _ \<Rightarrow> Inl TypeError)"

text \<open>
  \<open>for field in ("name", "email"): if p.get(field): identifiers.append(p[field])\<close>.
\<close>

definition name_and_email :: "dict \<Rightarrow> json list" where
  "name_and_email p = filter truthy [dict_get p ''name'', dict_get p ''email'']"

fun attendee_identifiers :: "json \<Rightarrow> json list" where
  "attendee_identifiers (JObj att) = name_and_email att"
| "attendee_identifiers (JStr att) = [JStr att]"
| "attendee_identifiers _ = []"

fun list_identifiers :: "json \<Rightarrow> json list" where
  "list_identifiers (JObj p) = name_and_email p"
| "list_identifiers _ = []"

text \<open>
  \<open>extract_people\<close>. \<open>creator.get\<close> raises \<open>AttributeError\<close> when the creator is true
  and not a dict; the attendees are iterated as Python iterates them.
\<close>

definition extract_people :: "json \<Rightarrow> error + (json \<times> json list)" where
  "extract_people people_data =
     (if \<not> truthy people_data then Inr (JStr ''Me'', [])
      else case people_data of
        JObj people \<Rightarrow>
          (case py_or (dict_get people ''creator'') (JObj []) of
             JObj creator \<Rightarrow>
               (let creator_name =
                      (if truthy (dict_get creator ''name'') then dict_get creator ''name''
                       else JStr ''Me'')
                in then_do (py_iter (py_or (dict_get people ''attendees'') (JArr [])))
                     (\<lambda>atts. Inr (creator_name,
                        name_and_email creator @ concat (map attendee_identifiers atts))))
           | _ \<Rightarrow> Inl AttributeError)
      | JArr ps \<Rightarrow> Inr (JStr ''Me'', concat (map list_identifiers ps))
      | _ \<Rightarrow> Inr (JStr ''Me'', []))"

fun attendee_name :: "json \<Rightarrow> json list" where
  "attendee_name (JObj att) = (if truthy (dict_get att ''name'') then [dict_get att ''name''] else [])"
| "attendee_name (JStr att) = [JStr att]"
| "attendee_name _ = []"

fun list_name :: "json \<Rightarrow> json list" where
  "list_name (JObj p) =
     [dict_get_default p ''name'' (dict_get_default p ''email'' (JStr ''Unknown''))]"
| "list_name _ = []"

definition get_attendee_names :: "json \<Rightarrow> error + json list" where
  "get_attendee_names people_data =
     (if \<not> truthy people_data then Inr []
      else case people_data of
        JObj people \<Rightarrow>
          (case py_or (dict_get people ''creator'') (JObj []) of
             JObj creator \<Rightarrow>
               then_do (py_iter (py_or (dict_get people ''attendees'') (JArr [])))
                 (\<lambda>atts. Inr ((if truthy (dict_get creator ''name'')
                                then [dict_get creator ''name''] else [])
                               @ concat (map attendee_name atts)))
           | _ \<Rightarrow> Inl AttributeError)
      | JArr ps \<Rightarrow> Inr (concat (map list_name ps))
      | _ \<Rightarrow> Inr [])"

section \<open>Transcript formatting\<close>

fun the_str :: "json \<Rightarrow> string option" where
  "the_str (JStr s) = Some s"
| "the_str _ = None"

text \<open>\<open>", ".join(names)\<close> raises \<open>TypeError\<close> unless every name is a string.\<close>

definition join_names :: "json list \<Rightarrow> error + string" where
  "join_names names =
     (if list_all (\<lambda>n. the_str n \<noteq> None) names
      then Inr (join '', '' (map (\<lambda>n. the (the_str n)) names))
      else Inl TypeError)"

definition newline :: char where
  "newline = CHR 0x0A"

text \<open>The lines of the header that may raise: the date and the attendees.\<close>

definition date_line :: "pylib \<Rightarrow> dict \<Rightarrow> error + string" where
  "date_line lib doc =
     (let created = py_or (dict_get doc ''created_at'') (JStr []) in
      then_do (if truthy created then slice_upto 10 created else Inr (JStr ''Unknown''))
        (\<lambda>day. Inr (newline # ''**Date:** '' @ py_format lib day)))"

definition attendees_line :: "json list \<Rightarrow> error + string list" where
  "attendees_line names =
     (if names \<noteq> []
      then then_do (join_names names) (\<lambda>joined. Inr [''**Attendees:** '' @ joined])
      else Inr [])"

definition title_line :: "pylib \<Rightarrow> dict \<Rightarrow> string" where
  "title_line lib doc =
     ''# '' @ py_format lib (py_or (dict_get doc ''title'') (JStr ''Untitled Meeting''))"

definition separator_line :: string where
  "separator_line = newline # ''---'' @ [newline]"

text \<open>
  The chapter loop. \<open>chapter.get\<close> and \<open>segment.get\<close> raise \<open>AttributeError\<close> on a value
  that is not a dict.
\<close>

fun chapter_segment_lines :: "pylib \<Rightarrow> json list \<Rightarrow> error + string list" where
  "chapter_segment_lines lib [] = Inr []"
| "chapter_segment_lines lib (JObj segment # segments) =
     (let speaker = dict_get_default segment ''speaker'' (JStr ''Unknown'');
          text = dict_get_default segment ''text'' (JStr [])
      in then_do (chapter_segment_lines lib segments)
           (\<lambda>rest. Inr ((''**'' @ py_format lib speaker @ '':** '' @ py_format lib text @ [newline])
                         # rest)))"
| "chapter_segment_lines lib (_ # segments) = Inl AttributeError"

fun chapter_lines :: "pylib \<Rightarrow> json list \<Rightarrow> error + string list" where
  "chapter_lines lib [] = Inr []"
| "chapter_lines lib (JObj chapter # chapters) =
     (let heading =
            (if truthy (dict_get chapter ''title'')
             then [newline # ''## '' @ py_format lib (dict_get chapter ''title'') @ [newline]]
             else [])
      in then_do (py_iter (py_or (dict_get chapter ''transcript'') (JArr [])))
           (\<lambda>segments. then_do (chapter_segment_lines lib segments)
              (\<lambda>body. then_do (chapter_lines lib chapters)
                 (\<lambda>rest. Inr (heading @ body @ rest)))))"
| "chapter_lines lib (_ # chapters) = Inl AttributeError"

text \<open>The flat loop: a segment that is not a dict is passed over.\<close>

fun flat_lines :: "pylib \<Rightarrow> json \<Rightarrow> json list \<Rightarrow> string list" where
  "flat_lines lib creator_name [] = []"
| "flat_lines lib creator_name (JObj segment # segments) =
     (let source = dict_get_default segment ''source'' (JStr []);
          speaker =
            (if source = JStr ''microphone'' then creator_name
             else if source = JStr ''system'' then JStr ''Other''
             else dict_get_default segment ''speaker'' (JStr ''Unknown''));
          text = dict_get_default segment ''text'' (JStr [])
      in (if truthy text
          then [''**'' @ py_format lib speaker @ '':** '' @ py_format lib text @ [newline]]
          else [])
         @ flat_lines lib creator_name segments)"
| "flat_lines lib creator_name (_ # segments) = flat_lines lib creator_name segments"

definition format_transcript :: "pylib \<Rightarrow> dict \<Rightarrow> json \<Rightarrow> error + string" where
  "format_transcript lib doc transcript_data =
     then_do (date_line lib doc)
       (\<lambda>date. then_do (extract_people (dict_get doc ''people''))
          (\<lambda>(creator_name, _). then_do (get_attendee_names (dict_get doc ''people''))
             (\<lambda>names. then_do (attendees_line names)
                (\<lambda>attendees.
                   let header = [title_line lib doc, date] @ attendees @ [separator_line];
                       transcript =
                         py_or transcript_data (py_or (dict_get doc ''transcript'') (JArr []))
                   in if \<not> truthy transcript
                      then then_do (py_iter (py_or (dict_get doc ''chapters'') (JArr [])))
                             (\<lambda>chapters. then_do (chapter_lines lib chapters)
                                (\<lambda>body. Inr (join [newline] (header @ body))))
                      else case transcript of
                             JArr segments \<Rightarrow>
                               Inr (join [newline]
                                      (header @ flat_lines lib creator_name segments))
                           | _ \<Rightarrow> Inr (join [newline] header)))))"

section \<open>The store\<close>

text \<open>
  The storage root is absent (\<open>None\<close>) or a directory: a map from the names of its
  children to a regular file with its text or to a directory. A meeting directory
  holds regular files only, each a text. The order in which \<open>iterdir\<close> yields the
  children is chosen by the operating system: every function that lists the root
  takes that order as the argument \<open>listing\<close>.
\<close>

datatype node = File string | Dir "string \<rightharpoonup> string"

type_synonym store = "string \<rightharpoonup> node"

text \<open>
  \<open>storage_path / name\<close> names a child of the root when \<open>name\<close> is a single path
  component. Any other string leaves the part of the file system described here,
  and the functions below answer \<open>Unmodelled\<close> for it.
\<close>

definition path_component :: "string \<Rightarrow> bool" where
  "path_component s =
     (s \<noteq> [] \<and> s \<noteq> ''.'' \<and> s \<noteq> ''..'' \<and> CHR ''/'' \<notin> set s \<and> CHR 0x00 \<notin> set s)"

text \<open>
  The clause \<open>except (json.JSONDecodeError, IOError)\<close> of \<open>load_meeting_metadata\<close> and
  of \<open>find_meeting_dir\<close>: the exceptions it catches. Every other exception leaves the
  function.
\<close>

definition caught :: "error \<Rightarrow> bool" where
  "caught e = (e = JSONDecodeError \<or> e = IOError \<or> e = FileExistsError)"

definition load_meeting_metadata :: "pylib \<Rightarrow> store \<Rightarrow> string \<Rightarrow> error + json" where
  "load_meeting_metadata lib st meeting_dir =
     (case st meeting_dir of
        Some (Dir files) \<Rightarrow>
          (case files ''metadata.json'' of
             None \<Rightarrow> Inr JNull
           | Some text \<Rightarrow>
               (case json_load lib text of
                  Inr v \<Rightarrow> Inr v
                | Inl e \<Rightarrow> if caught e then Inr JNull else Inl e))
      | _ \<Rightarrow> Inr JNull)"

text \<open>
  \<open>x.get("id", "").startswith(meeting_id)\<close>: \<open>AttributeError\<close> when \<open>x\<close> is not a dict or
  its id is not a string.
\<close>

definition id_startswith :: "json \<Rightarrow> string \<Rightarrow> error + bool" where
  "id_startswith x meeting_id =
     (case x of
        JObj d \<Rightarrow>
          (case dict_get_default d ''id'' (JStr []) of
             JStr s \<Rightarrow> Inr (prefix meeting_id s)
           | _ \<Rightarrow> Inl AttributeError)
      | _ \<Rightarrow> Inl AttributeError)"

text \<open>
  The three tests of the loop body of \<open>find_meeting_dir\<close> on one directory. The test
  of the id of the raw document stands inside the \<open>try\<close>, whose clause catches none of
  the exceptions that test raises.
\<close>

definition item_matches :: "pylib \<Rightarrow> store \<Rightarrow> string \<Rightarrow> (string \<rightharpoonup> string) \<Rightarrow> string \<Rightarrow> error + bool" where
  "item_matches lib st item files meeting_id =
     (if sublist meeting_id item \<or> prefix meeting_id item then Inr True
      else then_do (load_meeting_metadata lib st item)
        (\<lambda>metadata.
           then_do (if truthy metadata then id_startswith metadata meeting_id else Inr False)
             (\<lambda>by_metadata.
                if by_metadata then Inr True
                else case files ''document.json'' of
                       None \<Rightarrow> Inr False
                     | Some text \<Rightarrow>
                         (case then_do (json_load lib text) (\<lambda>doc. id_startswith doc meeting_id) of
                            Inr found \<Rightarrow> Inr found
                          | Inl e \<Rightarrow> if caught e then Inr False else Inl e))))"

fun scan_items :: "pylib \<Rightarrow> store \<Rightarrow> string \<Rightarrow> string list \<Rightarrow> error + string option" where
  "scan_items lib st meeting_id [] = Inr None"
| "scan_items lib st meeting_id (item # items) =
     (case st item of
        Some (Dir files) \<Rightarrow>
          then_do (item_matches lib st item files meeting_id)
            (\<lambda>found. if found then Inr (Some item) else scan_items lib st meeting_id items)
      | _ \<Rightarrow> scan_items lib st meeting_id items)"

text \<open>
  \<open>find_meeting_dir\<close>. \<open>storage_path / meeting_id\<close> raises \<open>TypeError\<close> when the
  identifier is not a string.
\<close>

definition find_meeting_dir :: "pylib \<Rightarrow> string list \<Rightarrow> store option \<Rightarrow> json \<Rightarrow> error + string option" where
  "find_meeting_dir lib listing storage meeting_id =
     (case storage of
        None \<Rightarrow> Inr None
      | Some st \<Rightarrow>
          (case meeting_id of
             JStr s \<Rightarrow>
               if \<not> path_component s then Inl Unmodelled
               else if st s \<noteq> None then Inr (Some s)
               else scan_items lib st s listing
           | _ \<Rightarrow> Inl TypeError))"

text \<open>
  The writes of \<open>save_meeting\<close> into \<open>meeting_dir\<close>, from \<open>mkdir\<close> on. \<open>mkdir\<close> with
  \<open>exist_ok\<close> raises \<open>FileExistsError\<close> on a regular file, and \<open>f.write(notes)\<close> raises
  \<open>TypeError\<close> on notes that are not a string.
\<close>

definition metadata_of :: "dict \<Rightarrow> json" where
  "metadata_of doc =
     JObj [(''id'', dict_get doc ''id''),
           (''title'', dict_get doc ''title''),
           (''created_at'', dict_get doc ''created_at''),
           (''updated_at'', dict_get doc ''updated_at''),
           (''people'', dict_get doc ''people''),
           (''calendar_event'', dict_get doc ''google_calendar_event'')]"

definition write_meeting :: "pylib \<Rightarrow> dict \<Rightarrow> store option \<Rightarrow> string \<Rightarrow> json \<Rightarrow> error + (bool \<times> store option)" where
  "write_meeting lib doc storage meeting_dir transcript_data =
     (let st = (case storage of None \<Rightarrow> Map.empty | Some st \<Rightarrow> st) in
      case st meeting_dir of
        Some (File _) \<Rightarrow> Inl FileExistsError
      | found \<Rightarrow>
          (let files0 = (case found of Some (Dir files) \<Rightarrow> files | _ \<Rightarrow> Map.empty);
               files1 = files0(''metadata.json'' \<mapsto> json_dump lib (metadata_of doc))
           in then_do (format_transcript lib doc transcript_data)
                (\<lambda>rendered.
                   let files2 = files1(''transcript.md'' \<mapsto> rendered);
                       raw_transcript =
                         py_or transcript_data
                           (py_or (dict_get doc ''transcript'')
                              (dict_get_default doc ''chapters'' (JArr [])));
                       files3 = files2(''transcript.json'' \<mapsto> json_dump lib raw_transcript);
                       files4 = files3(''document.json'' \<mapsto> json_dump lib (JObj doc));
                       notes = py_or (dict_get doc ''notes_markdown'') (dict_get doc ''notes_plain'')
                   in if truthy notes
                      then (case notes of
                              JStr text \<Rightarrow>
                                Inr (True, Some (st(meeting_dir \<mapsto> Dir (files4(''notes.md'' \<mapsto> text)))))
                            | _ \<Rightarrow> Inl TypeError)
                      else Inr (True, Some (st(meeting_dir \<mapsto> Dir files4))))))"

text \<open>The children of the storage root; none when the root is absent.\<close>

definition children :: "store option \<Rightarrow> store" where
  "children storage = (case storage of None \<Rightarrow> Map.empty | Some st \<Rightarrow> st)"

text \<open>
  The test \<open>metadata and metadata.get("updated_at") == doc.get("updated_at")\<close> on the
  directory found; \<open>metadata.get\<close> raises on a true value that is not a dict.
\<close>

definition unchanged :: "pylib \<Rightarrow> store \<Rightarrow> string \<Rightarrow> dict \<Rightarrow> error + bool" where
  "unchanged lib st existing_dir doc =
     then_do (load_meeting_metadata lib st existing_dir)
       (\<lambda>metadata.
          if truthy metadata
          then (case metadata of
                  JObj md \<Rightarrow> Inr (py_eq (dict_get md ''updated_at'') (dict_get doc ''updated_at''))
                | _ \<Rightarrow> Inl AttributeError)
          else Inr False)"

text \<open>The \<open>else\<close> branch of \<open>save_meeting\<close>: the name of the directory to create.\<close>

definition new_folder :: "pylib \<Rightarrow> dict \<Rightarrow> store option \<Rightarrow> json \<Rightarrow> error + string" where
  "new_folder lib doc storage meeting_id =
     then_do (make_folder_name lib doc)
       (\<lambda>folder_name.
          if \<not> path_component folder_name then Inl Unmodelled
          else if children storage folder_name \<noteq> None
          then then_do (slice_upto 8 meeting_id)
                 (\<lambda>short.
                    let suffixed = folder_name @ ''_'' @ py_format lib short in
                    if path_component suffixed then Inr suffixed else Inl Unmodelled)
          else Inr folder_name)"

text \<open>
  \<open>save_meeting\<close>. \<open>transcript_data\<close> is what \<open>fetch_transcript\<close> answers, \<open>JNull\<close> when
  there is no token. The result is the value returned and the storage root after
  the call.
\<close>

definition save_meeting :: "pylib \<Rightarrow> string list \<Rightarrow> dict \<Rightarrow> store option \<Rightarrow> json \<Rightarrow> bool \<Rightarrow> error + (bool \<times> store option)" where
  "save_meeting lib listing doc storage transcript_data force =
     (let meeting_id = dict_get doc ''id'' in
      if \<not> truthy meeting_id then Inr (False, storage)
      else then_do (find_meeting_dir lib listing storage meeting_id)
             (\<lambda>existing.
                case existing of
                  Some existing_dir \<Rightarrow>
                    then_do (if force then Inr False
                             else unchanged lib (children storage) existing_dir doc)
                      (\<lambda>skip.
                         if skip then Inr (False, storage)
                         else write_meeting lib doc storage existing_dir transcript_data)
                | None \<Rightarrow>
                    then_do (new_folder lib doc storage meeting_id)
                      (\<lambda>meeting_dir.
                         write_meeting lib doc storage meeting_dir transcript_data)))"

text \<open>
  The loop of \<open>cmd_sync\<close> over the fetched documents, with its two counters. Each
  document comes with the enumeration of the root that its save meets and with what
  \<open>fetch_transcript\<close> answers for it. Every turn first computes the title of its
  progress line, \<open>(doc.get("title") or "Untitled")[:40]\<close>, printed or not.
\<close>

definition progress_title :: "dict \<Rightarrow> error + json" where
  "progress_title doc = slice_upto 40 (py_or (dict_get doc ''title'') (JStr ''Untitled''))"

fun sync_loop :: "pylib \<Rightarrow> bool \<Rightarrow> (string list \<times> dict \<times> json) list \<Rightarrow> store option \<Rightarrow> error + (nat \<times> nat \<times> store option)" where
  "sync_loop lib force [] storage = Inr (0, 0, storage)"
| "sync_loop lib force ((listing, doc, transcript_data) # docs) storage =
     then_do (progress_title doc)
       (\<lambda>title.
          then_do (save_meeting lib listing doc storage transcript_data force)
            (\<lambda>(saved, storage').
               then_do (sync_loop lib force docs storage')
                 (\<lambda>(synced, skipped, final).
                    Inr (if saved then (Suc synced, skipped, final)
                         else (synced, Suc skipped, final)))))"

section \<open>Filtering\<close>

text \<open>
  What filtering and search take from outside the program: the date of today as a
  day number, \<open>datetime.strptime(s, "%Y-%m-%d")\<close> (\<open>None\<close> when it raises \<open>ValueError\<close>),
  and \<open>re.compile(pattern, re.IGNORECASE)\<close>, which gives the \<open>search\<close> test of the
  compiled pattern or \<open>None\<close> when the pattern is refused.
\<close>

record runtime =
  today :: int
  strptime :: "string \<Rightarrow> int option"
  re_compile :: "string \<Rightarrow> (string \<Rightarrow> bool) option"

text \<open>\<open>str.lower\<close> of one character, \<open>str.strip()\<close> and \<open>str.split()\<close>.\<close>

definition py_lower :: "char \<Rightarrow> char" where
  "py_lower c =
     (let n = of_char c :: nat in
      if (65 \<le> n \<and> n \<le> 90) \<or> (192 \<le> n \<and> n \<le> 222 \<and> n \<noteq> 215) then char_of (n + 32)
      else c)"

definition py_strip :: "string \<Rightarrow> string" where
  "py_strip s = rev (dropWhile py_isspace (rev (dropWhile py_isspace s)))"

function py_split :: "string \<Rightarrow> string list" where
  "py_split s =
     (case dropWhile py_isspace s of
        [] \<Rightarrow> []
      | c # cs \<Rightarrow> (c # takeWhile (\<lambda>x. \<not> py_isspace x) cs)
                  # py_split (dropWhile (\<lambda>x. \<not> py_isspace x) cs))"
  by pat_completeness auto
termination
proof (relation "measure length")
  show "wf (measure length)" by simp
next
  fix s :: string and c cs
  assume a: "dropWhile py_isspace s = c # cs"
  have "length (dropWhile (\<lambda>x. \<not> py_isspace x) cs) \<le> length cs"
    by (rule length_dropWhile_le)
  moreover have "length (c # cs) \<le> length s"
    using length_dropWhile_le[of py_isspace s] a by simp
  ultimately show "(dropWhile (\<lambda>x. \<not> py_isspace x) cs, s) \<in> measure length"
    by simp
qed

declare py_split.simps [simp del]

text \<open>
  \<open>parse_date\<close>: the part for a string that starts with "last", then the whole. The
  string is lowered and stripped first.
\<close>

definition last_keyword :: "runtime \<Rightarrow> string \<Rightarrow> int option" where
  "last_keyword rt date_str =
     (if prefix ''last'' date_str
      then (case py_split date_str of
              _ # unit # _ \<Rightarrow>
                if sublist ''week'' unit then Some (today rt - 7)
                else if sublist ''month'' unit then Some (today rt - 30)
                else None
            | _ \<Rightarrow> None)
      else None)"

definition parse_date :: "runtime \<Rightarrow> string \<Rightarrow> int option" where
  "parse_date rt date_str0 =
     (let date_str = py_strip (map py_lower date_str0) in
      if date_str = ''today'' then Some (today rt)
      else if date_str = ''yesterday'' then Some (today rt - 1)
      else case last_keyword rt date_str of
             Some d \<Rightarrow> Some d
           | None \<Rightarrow> strptime rt date_str)"

text \<open>
  \<open>get_meeting_date\<close>. \<open>meeting.get("created_at", "")[:10]\<close> raises on a value that
  cannot be sliced, and \<open>strptime\<close> raises \<open>TypeError\<close> on a slice that is a list.
\<close>

definition get_meeting_date :: "runtime \<Rightarrow> dict \<Rightarrow> error + int option" where
  "get_meeting_date rt meeting =
     then_do (slice_upto 10 (dict_get_default meeting ''created_at'' (JStr [])))
       (\<lambda>created.
          if \<not> truthy created then Inr None
          else case created of JStr s \<Rightarrow> Inr (strptime rt s) | _ \<Rightarrow> Inl TypeError)"

text \<open>
  \<open>matches_participant\<close>: \<open>any\<close> stops at the first identifier that contains the
  query; \<open>ident.lower()\<close> raises on an identifier that is not a string.
\<close>

fun any_contains :: "string \<Rightarrow> json list \<Rightarrow> error + bool" where
  "any_contains query_lower [] = Inr False"
| "any_contains query_lower (JStr ident # identifiers) =
     (if sublist query_lower (map py_lower ident) then Inr True
      else any_contains query_lower identifiers)"
| "any_contains query_lower (_ # identifiers) = Inl AttributeError"

definition matches_participant :: "json \<Rightarrow> string \<Rightarrow> error + bool" where
  "matches_participant people_data query =
     then_do (extract_people people_data)
       (\<lambda>(_, identifiers). any_contains (map py_lower query) identifiers)"

text \<open>
  \<open>re.search(pattern, subject, re.IGNORECASE)\<close>: the pattern is compiled first, then
  a subject that is not a string raises \<open>TypeError\<close>.
\<close>

definition re_search :: "runtime \<Rightarrow> string \<Rightarrow> json \<Rightarrow> error + bool" where
  "re_search rt pattern subject =
     (case re_compile rt pattern of
        None \<Rightarrow> Inl ReError
      | Some matcher \<Rightarrow> (case subject of JStr s \<Rightarrow> Inr (matcher s) | _ \<Rightarrow> Inl TypeError))"

text \<open>
  The arguments of \<open>filter_meetings\<close> are strings or \<open>None\<close>; \<open>if arg\<close> holds for a
  string that is not empty. A date argument gives a target date when it is given
  and parses. \<open>excluded\<close> is the test \<open>target and (not meeting_date or
  meeting_date differs from target)\<close> of the three date filters.
\<close>

definition given :: "string option \<Rightarrow> bool" where
  "given arg = (case arg of None \<Rightarrow> False | Some s \<Rightarrow> s \<noteq> [])"

definition target_of :: "runtime \<Rightarrow> string option \<Rightarrow> int option" where
  "target_of rt arg = (case arg of None \<Rightarrow> None | Some s \<Rightarrow> if s = [] then None else parse_date rt s)"

definition excluded :: "(int \<Rightarrow> int \<Rightarrow> bool) \<Rightarrow> int option \<Rightarrow> int option \<Rightarrow> bool" where
  "excluded differs target meeting_date =
     (case target of
        None \<Rightarrow> False
      | Some t \<Rightarrow> (case meeting_date of None \<Rightarrow> True | Some d \<Rightarrow> differs d t))"

definition when_given :: "string option \<Rightarrow> (string \<Rightarrow> error + bool) \<Rightarrow> error + bool" where
  "when_given arg test =
     (case arg of None \<Rightarrow> Inr True | Some s \<Rightarrow> if s = [] then Inr True else test s)"

text \<open>
  The body of the loop of \<open>filter_meetings\<close> on one meeting: \<open>Inr False\<close> is
  \<open>continue\<close>, \<open>Inr True\<close> is \<open>results.append(m)\<close>.
\<close>

definition keeps :: "runtime \<Rightarrow> int option \<Rightarrow> int option \<Rightarrow> int option \<Rightarrow> string option \<Rightarrow> string option \<Rightarrow> dict \<Rightarrow> error + bool" where
  "keeps rt target_date target_start target_end title participant m =
     then_do (get_meeting_date rt m)
       (\<lambda>meeting_date.
          if excluded (\<lambda>d t. d \<noteq> t) target_date meeting_date then Inr False
          else if excluded (\<lambda>d t. d < t) target_start meeting_date then Inr False
          else if excluded (\<lambda>d t. d > t) target_end meeting_date then Inr False
          else then_do (when_given title
                          (\<lambda>pattern. re_search rt pattern (dict_get_default m ''title'' (JStr []))))
                 (\<lambda>title_ok.
                    if \<not> title_ok then Inr False
                    else when_given participant
                           (\<lambda>query. matches_participant (dict_get m ''people'') query)))"

fun filter_loop :: "(dict \<Rightarrow> error + bool) \<Rightarrow> dict list \<Rightarrow> error + dict list" where
  "filter_loop keep [] = Inr []"
| "filter_loop keep (m # meetings) =
     then_do (keep m)
       (\<lambda>kept. then_do (filter_loop keep meetings)
          (\<lambda>results. Inr (if kept then m # results else results)))"

definition filter_meetings :: "runtime \<Rightarrow> dict list \<Rightarrow> string option \<Rightarrow> string option \<Rightarrow> string option \<Rightarrow> string option \<Rightarrow> string option \<Rightarrow> error + dict list" where
  "filter_meetings rt meetings on_date start_date end_date title participant =
     (let target_date = target_of rt on_date;
          target_start = target_of rt start_date;
          target_end = target_of rt end_date
      in filter_loop (keeps rt target_date target_start target_end title participant) meetings)"

section \<open>Search\<close>

text \<open>
  The part of \<open>cmd_search\<close> that works on one transcript: \<open>split("\n")\<close>, the slice
  \<open>lines[start:end]\<close> (a negative bound counts from the end), the dict appended for a
  match, and the loop over the enumerated lines.
\<close>

fun split_lines :: "string \<Rightarrow> string list" where
  "split_lines [] = [[]]"
| "split_lines (c # cs) =
     (if c = newline then [] # split_lines cs
      else (case split_lines cs of l # ls \<Rightarrow> (c # l) # ls | [] \<Rightarrow> [[c]]))"

definition py_slice :: "'a list \<Rightarrow> int \<Rightarrow> int \<Rightarrow> 'a list" where
  "py_slice xs start stop =
     (let n = int (length xs);
          lo = (if start < 0 then max 0 (n + start) else min start n);
          hi = (if stop < 0 then max 0 (n + stop) else min stop n)
      in drop (nat lo) (take (nat hi) xs))"

definition match_entry :: "int \<Rightarrow> string list \<Rightarrow> nat \<Rightarrow> string \<Rightarrow> json" where
  "match_entry context lines i line =
     (let start = max 0 (int i - context);
          end = min (int (length lines)) (int i + context + 1);
          joined = join [newline] (py_slice lines start end)
      in JObj [(''line'', JNum (int i + 1)),
               (''text'', JStr (py_strip line)),
               (''context'', if context > 0 then JStr joined else JNull)])"

fun search_loop :: "(string \<Rightarrow> bool) \<Rightarrow> int \<Rightarrow> string list \<Rightarrow> nat \<Rightarrow> string list \<Rightarrow> json list" where
  "search_loop matcher context lines i [] = []"
| "search_loop matcher context lines i (line # rest) =
     (if matcher line then [match_entry context lines i line] else [])
     @ search_loop matcher context lines (Suc i) rest"

definition transcript_matches :: "(string \<Rightarrow> bool) \<Rightarrow> int \<Rightarrow> string \<Rightarrow> json list" where
  "transcript_matches matcher context body =
     (let lines = split_lines body in search_loop matcher context lines 0 lines)"

section \<open>Definitions that follow the specification\<close>

text \<open>
  Sanitization as the specification words it: every hostile character becomes a
  dash, every whitespace character becomes a dash and a dash that follows a dash is
  dropped, dashes and blanks are trimmed at both ends, the result is cut at 50
  characters and trimmed at the right again, and an empty result is "Untitled".
\<close>

fun squeeze_dashes :: "string \<Rightarrow> string" where
  "squeeze_dashes (a # b # cs) =
     (if a = CHR ''-'' \<and> b = CHR ''-'' then squeeze_dashes (b # cs)
      else a # squeeze_dashes (b # cs))"
| "squeeze_dashes cs = cs"

definition trim_right_spec :: "string \<Rightarrow> string" where
  "trim_right_spec s =
     foldr (\<lambda>c acc. if acc = [] \<and> dash_or_blank c then [] else c # acc) s []"

fun trim_left_spec :: "string \<Rightarrow> string" where
  "trim_left_spec [] = []"
| "trim_left_spec (c # cs) = (if dash_or_blank c then trim_left_spec cs else c # cs)"

definition sanitize_spec :: "string \<Rightarrow> string" where
  "sanitize_spec title =
     (let replaced = map (\<lambda>c. if hostile c then CHR ''-'' else c) title;
          collapsed = squeeze_dashes (map (\<lambda>c. if py_isspace c then CHR ''-'' else c) replaced);
          trimmed = trim_right_spec (trim_left_spec collapsed);
          cut = trim_right_spec (take 50 trimmed)
      in if cut = [] then ''Untitled'' else cut)"






text \<open>
  What the loop of the resolver does with a child it does not return: the child is
  no directory, or it is a directory and all three tests fail without an exception.
\<close>

definition passes_over :: "pylib \<Rightarrow> store \<Rightarrow> string \<Rightarrow> string \<Rightarrow> bool" where
  "passes_over lib st meeting_id item =
     (case st item of
        Some (Dir files) \<Rightarrow> item_matches lib st item files meeting_id = Inr False
      | _ \<Rightarrow> True)"

text \<open>
  The files of one meeting record as the specification lists them: the metadata, the
  rendered transcript, the raw transcript (the fetched one, else the document's own,
  else its chapters, else empty), the document, and the notes when there are any.
  A save that writes lays them over the files the directory already has.
\<close>

definition dir_files :: "store \<Rightarrow> string \<Rightarrow> (string \<rightharpoonup> string)" where
  "dir_files st d = (case st d of Some (Dir files) \<Rightarrow> files | _ \<Rightarrow> Map.empty)"

definition notes_of :: "dict \<Rightarrow> json" where
  "notes_of doc = py_or (dict_get doc ''notes_markdown'') (dict_get doc ''notes_plain'')"

definition record_files :: "pylib \<Rightarrow> dict \<Rightarrow> json \<Rightarrow> string \<Rightarrow> (string \<rightharpoonup> string)" where
  "record_files lib doc transcript_data rendered =
     [''metadata.json'' \<mapsto> json_dump lib (metadata_of doc),
      ''transcript.md'' \<mapsto> rendered,
      ''transcript.json'' \<mapsto>
         json_dump lib (if truthy transcript_data then transcript_data
                        else if truthy (dict_get doc ''transcript'') then dict_get doc ''transcript''
                        else dict_get_default doc ''chapters'' (JArr [])),
      ''document.json'' \<mapsto> json_dump lib (JObj doc)]
     ++ (case notes_of doc of JStr text \<Rightarrow> if text = [] then Map.empty else [''notes.md'' \<mapsto> text]
         | _ \<Rightarrow> Map.empty)"

text \<open>
  What a save needs to return at all once it writes: notes that are a string, and a
  target that is not a regular file.
\<close>

definition notes_writable :: "dict \<Rightarrow> bool" where
  "notes_writable doc = (truthy (notes_of doc) \<longrightarrow> the_str (notes_of doc) \<noteq> None)"

definition not_a_file :: "store \<Rightarrow> string \<Rightarrow> bool" where
  "not_a_file st d = (case st d of Some (File _) \<Rightarrow> False | _ \<Rightarrow> True)"

text \<open>
  Two successive enumerations of the storage root: each lists exactly the children,
  and the second has the order of the first, with at most one entry more.
\<close>

definition enumerates :: "string list \<Rightarrow> store option \<Rightarrow> bool" where
  "enumerates listing storage = (distinct listing \<and> set listing = dom (children storage))"

definition same_order :: "string list \<Rightarrow> string list \<Rightarrow> bool" where
  "same_order listing listing' =
     (listing' = listing \<or> (\<exists>n \<in> set listing'. remove1 n listing' = listing))"

text \<open>
  Two calls of the filter and the call with the predicates of both: an argument of
  the combined call is the one of the first call when that is given, else the one of
  the second; the two calls are compatible when no argument is given in both with
  different values. \<open>all_pass\<close> runs a list of tests as the loop body runs its five.
\<close>

definition merge_arg :: "string option \<Rightarrow> string option \<Rightarrow> string option" where
  "merge_arg a b = (if given a then a else b)"

definition compatible :: "string option \<Rightarrow> string option \<Rightarrow> bool" where
  "compatible a b = (given a \<and> given b \<longrightarrow> a = b)"

fun all_pass :: "(error + bool) list \<Rightarrow> error + bool" where
  "all_pass [] = Inr True"
| "all_pass (c # cs) =
     (case c of Inl e \<Rightarrow> Inl e | Inr ok \<Rightarrow> if ok then all_pass cs else Inr False)"

definition merged :: "error + bool \<Rightarrow> error + bool \<Rightarrow> error + bool \<Rightarrow> bool" where
  "merged a b c = ((c = a \<and> (b = Inr True \<or> b = a)) \<or> (c = b \<and> a = Inr True))"

fun merged_all :: "(error + bool) list \<Rightarrow> (error + bool) list \<Rightarrow> (error + bool) list \<Rightarrow> bool" where
  "merged_all [] [] [] = True"
| "merged_all (a # as) (b # bs) (c # cs) = (merged a b c \<and> merged_all as bs cs)"
| "merged_all _ _ _ = False"

text \<open>
  A match as the specification words it: the line number counted from one, the
  trimmed line, and for a positive number of context lines the lines from that many
  before the match to that many after it, within the file, joined by newlines.
\<close>

definition context_spec :: "nat \<Rightarrow> string list \<Rightarrow> nat \<Rightarrow> string" where
  "context_spec context_lines lines i =
     join [newline]
       (map (\<lambda>j. lines ! j) [i - context_lines ..< min (length lines) (i + context_lines + 1)])"

definition match_spec :: "int \<Rightarrow> string list \<Rightarrow> nat \<Rightarrow> json" where
  "match_spec context lines i =
     JObj [(''line'', JNum (int i + 1)),
           (''text'', JStr (py_strip (lines ! i))),
           (''context'', if context > 0 then JStr (context_spec (nat context) lines i) else JNull)]"

text \<open>
  A directory is anchored for an id when it holds metadata, written by the codec
  and read back by it, of a document with that id, and the resolver reaches it: it
  is the child named by the id when there is one, and otherwise it is enumerated and
  every child enumerated before it is passed over.
\<close>

definition anchored :: "pylib \<Rightarrow> string list \<Rightarrow> string \<Rightarrow> store option \<Rightarrow> string \<Rightarrow> bool" where
  "anchored lib listing s storage d =
     (\<exists>files doc.
        children storage d = Some (Dir files)
      \<and> files ''metadata.json'' = Some (json_dump lib (metadata_of doc))
      \<and> json_load lib (json_dump lib (metadata_of doc)) = Inr (metadata_of doc)
      \<and> dict_get doc ''id'' = JStr s
      \<and> (children storage s \<noteq> None \<longrightarrow> d = s)
      \<and> d \<in> set listing
      \<and> (children storage s = None \<longrightarrow>
           (\<forall>x \<in> set (takeWhile (\<lambda>x. x \<noteq> d) listing).
               passes_over lib (children storage) s x)))"

section \<open>Examples\<close>

text \<open>A runtime whose library functions answer nothing, for the examples that need none.\<close>

definition example_lib :: pylib where
  "example_lib = \<lparr>json_load = (\<lambda>_. Inl JSONDecodeError), json_dump = (\<lambda>_. []), py_repr = (\<lambda>_. [])\<rparr>"

definition doc_a :: dict where
  "doc_a = [(''id'', JStr ''abc123''), (''title'', JStr ''Team  Sync: Q1/Q2 -- ''),
            (''created_at'', JStr ''2025-01-15T10:00:00Z'')]"

definition doc_b :: dict where
  "doc_b = [(''created_at'', JStr ''2025-01-15T10:00:00Z''), (''id'', JStr ''zzz''),
            (''title'', JStr ''Team  Sync: Q1/Q2 -- ''), (''updated_at'', JStr ''x'')]"







text \<open>
  The documents of the examples: the scenario of the specification under three ids,
  a later version of it with another title, and a runtime whose codec knows the
  metadata of the first.
\<close>

definition team_fields :: dict where
  "team_fields =
     [(''title'', JStr ''Team Sync''),
      (''created_at'', JStr ''2025-01-15T10:00:00Z''),
      (''updated_at'', JStr ''2025-01-15T10:00:00Z''),
      (''people'', JObj [(''creator'', JObj [(''name'', JStr ''Alice'')]),
                         (''attendees'', JArr [JObj [(''name'', JStr ''Bob'')]])]),
      (''transcript'', JArr [JObj [(''source'', JStr ''microphone''), (''text'', JStr ''hi'')]])]"

definition team_doc :: dict where
  "team_doc = (''id'', JStr ''abc123'') # team_fields"

definition other_doc :: dict where
  "other_doc = (''id'', JStr ''xyz789'') # team_fields"

definition prefix_doc :: dict where
  "prefix_doc = (''id'', JStr ''abc'') # team_fields"

definition retitled_doc :: dict where
  "retitled_doc =
     [(''id'', JStr ''abc123''), (''title'', JStr ''Renamed Sync''),
      (''created_at'', JStr ''2025-01-15T10:00:00Z''),
      (''updated_at'', JStr ''2025-01-16T09:00:00Z'')]"

definition team_slug :: string where
  "team_slug = ''2025-01-15_Team-Sync''"

definition team_rendered :: string where
  "team_rendered =
     join [newline]
       [''# Team Sync'', newline # ''**Date:** 2025-01-15'', ''**Attendees:** Alice, Bob'',
        newline # ''---'' @ [newline], ''**Alice:** hi'' @ [newline]]"

definition retitled_rendered :: string where
  "retitled_rendered =
     join [newline]
       [''# Renamed Sync'', newline # ''**Date:** 2025-01-15'', newline # ''---'' @ [newline]]"

definition save_lib :: pylib where
  "save_lib =
     \<lparr>json_load = (\<lambda>body. if body = ''metadata of abc123'' then Inr (metadata_of team_doc)
                           else if body = ''metadata of abc123, retitled''
                           then Inr (metadata_of retitled_doc)
                           else if body = ''bytes that are no text'' then Inl UnicodeDecodeError
                           else Inl JSONDecodeError),
      json_dump = (\<lambda>v. if v = metadata_of team_doc then ''metadata of abc123''
                        else if v = metadata_of retitled_doc then ''metadata of abc123, retitled''
                        else ''json''),
      py_repr = (\<lambda>_. [])\<rparr>"

definition team_store :: "store option" where
  "team_store = Some [team_slug \<mapsto> Dir (record_files save_lib team_doc JNull team_rendered)]"

definition retitled_store :: "store option" where
  "retitled_store =
     Some [team_slug \<mapsto> Dir (record_files save_lib team_doc JNull team_rendered
                               ++ record_files save_lib retitled_doc JNull retitled_rendered)]"





text \<open>
  Three meetings, and a runtime that knows three dates and searches a pattern as a
  substring without regard to case; a transcript of ten lines.
\<close>

definition example_rt :: runtime where
  "example_rt =
     \<lparr>today = 739300,
      strptime = (\<lambda>s. if s = ''2025-01-15'' then Some 739266
                       else if s = ''2025-02-01'' then Some 739283
                       else if s = ''2025-01-20'' then Some 739271 else None),
      re_compile = (\<lambda>pattern. Some (\<lambda>s. sublist (map py_lower pattern) (map py_lower s)))\<rparr>"

definition standup_alice :: dict where
  "standup_alice =
     [(''id'', JStr ''m1''), (''title'', JStr ''Daily Standup''),
      (''created_at'', JStr ''2025-01-15T10:00:00Z''),
      (''people'', JObj [(''creator'', JObj [(''name'', JStr ''Alice'')])])]"

definition standup_bob :: dict where
  "standup_bob =
     [(''id'', JStr ''m2''), (''title'', JStr ''standup''),
      (''created_at'', JStr ''2025-02-01T10:00:00Z''),
      (''people'', JObj [(''creator'', JObj [(''name'', JStr ''Bob'')])])]"

definition retro_alice :: dict where
  "retro_alice =
     [(''id'', JStr ''m3''), (''title'', JStr ''Retro''),
      (''created_at'', JStr ''2025-02-01T11:00:00Z''),
      (''people'', JArr [JObj [(''email'', JStr ''alice@example.com'')]])]"

definition ten_lines :: "string list" where
  "ten_lines = [''hit one'', ''l2'', ''l3'', ''l4'', ''  hit five '', ''l6'', ''l7'', ''l8'',
                ''l9'', ''l10'']"

definition ten_body :: string where
  "ten_body = join [newline] ten_lines"

section \<open>Folder names: verified properties\<close>

lemma sub_runs_squeeze:
  "sub_runs s = squeeze_dashes (map (\<lambda>c. if py_isspace c then CHR ''-'' else c) s)"
proof (induction s rule: sub_runs.induct)
  case 1
  then show ?case by simp
next
  case (2 c cs)
  show ?case
  proof (cases "space_or_dash c")
    case False
    then have "\<not> py_isspace c" "c \<noteq> CHR ''-''" by (auto simp: space_or_dash_def)
    with 2(2)[OF False] False show ?thesis
      by (cases cs) auto
  next
    case True
    have ih: "sub_runs (dropWhile space_or_dash cs) =
        squeeze_dashes (map (\<lambda>c. if py_isspace c then CHR ''-'' else c)
          (dropWhile space_or_dash cs))"
      using 2(1)[OF True] .
    have key: "CHR ''-'' # squeeze_dashes (map (\<lambda>c. if py_isspace c then CHR ''-'' else c)
          (dropWhile space_or_dash cs))
        = squeeze_dashes (CHR ''-'' # map (\<lambda>c. if py_isspace c then CHR ''-'' else c) cs)"
    proof (induction cs)
      case Nil
      then show ?case by simp
    next
      case (Cons d ds)
      then show ?case
        by (cases "dropWhile space_or_dash ds") (auto simp: space_or_dash_def split: if_splits)
    qed
    from True ih key show ?thesis by (auto simp: space_or_dash_def)
  qed
qed

lemma trim_left_spec_eq: "trim_left_spec s = dropWhile dash_or_blank s"
  by (induction s) auto

lemma trim_right_snoc:
  "trim_right_spec (s @ [c]) = (if dash_or_blank c then trim_right_spec s else s @ [c])"
  by (induction s) (auto simp: trim_right_spec_def)

lemma trim_right_spec_eq: "trim_right_spec s = rstrip_dash s"
proof (induction s rule: rev_induct)
  case Nil
  then show ?case by (simp add: trim_right_spec_def rstrip_dash_def)
next
  case (snoc c s)
  then show ?case by (simp add: trim_right_snoc rstrip_dash_def)
qed

lemma set_sub_runs: "set (sub_runs s) \<subseteq> insert CHR ''-'' (set s)"
proof (induction s rule: sub_runs.induct)
  case 1
  then show ?case by simp
next
  case (2 c cs)
  have "set (dropWhile space_or_dash cs) \<subseteq> set cs"
    by (auto dest: set_dropWhileD)
  with 2 show ?case by (cases "space_or_dash c") auto
qed

lemma set_rstrip_dash: "set (rstrip_dash s) \<subseteq> set s"
  by (auto simp: rstrip_dash_def dest: set_dropWhileD)

lemma set_strip_dash: "set (strip_dash s) \<subseteq> set s"
  using set_rstrip_dash[of "dropWhile dash_or_blank s"]
  by (auto simp: strip_dash_def dest: set_dropWhileD)

lemma length_rstrip_dash: "length (rstrip_dash s) \<le> length s"
  using length_dropWhile_le[of dash_or_blank "rev s"] by (simp add: rstrip_dash_def)

lemma rstrip_dash_idem: "rstrip_dash (rstrip_dash s) = rstrip_dash s"
  by (simp add: rstrip_dash_def)

lemma not_hostile_dash: "\<not> hostile CHR ''-''"
  by (simp add: hostile_def)

lemma sanitize_no_hostile: "c \<in> set (sanitize_filename name n) \<Longrightarrow> \<not> hostile c"
proof -
  assume c: "c \<in> set (sanitize_filename name n)"
  define name1 where "name1 = map (\<lambda>c. if hostile c then CHR ''-'' else c) name"
  define name3 where "name3 = strip_dash (sub_runs name1)"
  have n1: "\<forall>x \<in> set name1. \<not> hostile x"
    by (auto simp: name1_def not_hostile_dash)
  have "set name3 \<subseteq> insert CHR ''-'' (set name1)"
    unfolding name3_def using set_strip_dash[of "sub_runs name1"] set_sub_runs[of name1] by blast
  with n1 have n3: "\<forall>x \<in> set name3. \<not> hostile x"
    using not_hostile_dash by auto
  have cut: "\<forall>x \<in> set (rstrip_dash (take n name3)). \<not> hostile x"
    using n3 set_rstrip_dash[of "take n name3"] by (auto dest: in_set_takeD)
  have u: "\<forall>x \<in> set ''Untitled''. \<not> hostile x"
    by (simp add: hostile_def)
  from c n3 cut u show ?thesis
    unfolding sanitize_filename_def Let_def name1_def[symmetric] name3_def[symmetric]
    by (auto split: if_splits)
qed

lemma sanitize_length: "8 \<le> n \<Longrightarrow> length (sanitize_filename name n) \<le> n"
  using length_rstrip_dash[of "take n (strip_dash (sub_runs
          (map (\<lambda>c. if hostile c then CHR ''-'' else c) name)))"]
  by (auto simp: sanitize_filename_def Let_def)

lemma sanitize_refines: "sanitize_filename name 50 = sanitize_spec name"
proof -
  define name2 where
    "name2 = sub_runs (map (\<lambda>c. if hostile c then CHR ''-'' else c) name)"
  define name3 where "name3 = strip_dash name2"
  have idem: "rstrip_dash name3 = name3"
    by (simp add: name3_def strip_dash_def rstrip_dash_idem)
  have cut: "(if length name3 > 50 then rstrip_dash (take 50 name3) else name3)
        = rstrip_dash (take 50 name3)"
    using idem by simp
  have spec3: "rstrip_dash (dropWhile dash_or_blank (squeeze_dashes
      (map (\<lambda>c. if py_isspace c then CHR ''-'' else c)
        (map (\<lambda>c. if hostile c then CHR ''-'' else c) name)))) = name3"
    unfolding name3_def name2_def strip_dash_def sub_runs_squeeze ..
  have "sanitize_filename name 50 =
      (if rstrip_dash (take 50 name3) = [] then ''Untitled'' else rstrip_dash (take 50 name3))"
    unfolding sanitize_filename_def Let_def name2_def[symmetric] name3_def[symmetric] cut ..
  moreover have "sanitize_spec name =
      (if rstrip_dash (take 50 name3) = [] then ''Untitled'' else rstrip_dash (take 50 name3))"
    unfolding sanitize_spec_def Let_def trim_left_spec_eq trim_right_spec_eq
    unfolding spec3 ..
  ultimately show ?thesis by simp
qed

lemma sanitize_example: "sanitize_filename ''Team  Sync: Q1/Q2 -- '' 50 = ''Team-Sync-Q1-Q2''"
  by (simp add: sanitize_filename_def hostile_def strip_dash_def rstrip_dash_def
      dash_or_blank_def space_or_dash_def py_isspace_def)

text \<open>
  Claim C4. The folder name is a function of the document's \<open>created_at\<close> and \<open>title\<close>
  alone. When both are strings (or absent) it is the first ten characters of
  \<open>created_at\<close>, or "unknown-date", then an underscore, then the sanitized title.
  The sanitization of the source is the sanitization the specification words; its
  result has at most 50 characters and no hostile character.
\<close>

theorem slug_is_function_of_date_and_title:
  "(dict_get doc ''created_at'' = dict_get doc' ''created_at''
      \<and> dict_get doc ''title'' = dict_get doc' ''title''
      \<longrightarrow> make_folder_name lib doc = make_folder_name lib doc')
   \<and> (py_or (dict_get doc ''created_at'') (JStr []) = JStr created
      \<and> py_or (dict_get doc ''title'') (JStr ''Untitled'') = JStr title
      \<longrightarrow> make_folder_name lib doc =
          Inr ((if take 10 created = [] then ''unknown-date'' else take 10 created)
               @ ''_'' @ sanitize_filename title 50))
   \<and> sanitize_filename name 50 = sanitize_spec name
   \<and> length (sanitize_filename name 50) \<le> 50
   \<and> (\<forall>c \<in> set (sanitize_filename name 50). \<not> hostile c)"
proof (intro conjI impI ballI)
  assume same: "dict_get doc ''created_at'' = dict_get doc' ''created_at''
      \<and> dict_get doc ''title'' = dict_get doc' ''title''"
  from same have c: "dict_get doc ''created_at'' = dict_get doc' ''created_at''" ..
  from same have t: "dict_get doc ''title'' = dict_get doc' ''title''" ..
  show "make_folder_name lib doc = make_folder_name lib doc'"
    unfolding make_folder_name_def c t ..
next
  assume "py_or (dict_get doc ''created_at'') (JStr []) = JStr created
      \<and> py_or (dict_get doc ''title'') (JStr ''Untitled'') = JStr title"
  then show "make_folder_name lib doc =
          Inr ((if take 10 created = [] then ''unknown-date'' else take 10 created)
               @ ''_'' @ sanitize_filename title 50)"
    by (simp add: make_folder_name_def slice_upto_def py_or_def py_format_def)
next
  show "sanitize_filename name 50 = sanitize_spec name" by (rule sanitize_refines)
next
  show "length (sanitize_filename name 50) \<le> 50" by (rule sanitize_length) simp
next
  fix c assume "c \<in> set (sanitize_filename name 50)"
  then show "\<not> hostile c" by (rule sanitize_no_hostile)
qed

theorem slug_is_function_of_date_and_title_witness:
  "make_folder_name example_lib doc_a = make_folder_name example_lib doc_b
   \<and> make_folder_name example_lib doc_a = Inr ''2025-01-15_Team-Sync-Q1-Q2''
   \<and> sanitize_spec ''Team  Sync: Q1/Q2 -- '' = ''Team-Sync-Q1-Q2''"
proof -
  note slug = slug_is_function_of_date_and_title
    [where doc = doc_a and doc' = doc_b and created = "''2025-01-15T10:00:00Z''"
       and title = "''Team  Sync: Q1/Q2 -- ''" and lib = example_lib
       and name = "''Team  Sync: Q1/Q2 -- ''"]
  have same: "dict_get doc_a ''created_at'' = dict_get doc_b ''created_at''
      \<and> dict_get doc_a ''title'' = dict_get doc_b ''title''"
    by (simp add: doc_a_def doc_b_def dict_get_def)
  have strings: "py_or (dict_get doc_a ''created_at'') (JStr []) = JStr ''2025-01-15T10:00:00Z''
      \<and> py_or (dict_get doc_a ''title'') (JStr ''Untitled'') = JStr ''Team  Sync: Q1/Q2 -- ''"
    by (simp add: doc_a_def dict_get_def py_or_def)
  from slug same have "make_folder_name example_lib doc_a = make_folder_name example_lib doc_b"
    by blast
  moreover from slug strings have "make_folder_name example_lib doc_a =
      Inr ((if take 10 ''2025-01-15T10:00:00Z'' = [] then ''unknown-date''
            else take 10 ''2025-01-15T10:00:00Z'')
           @ ''_'' @ sanitize_filename ''Team  Sync: Q1/Q2 -- '' 50)"
    by blast
  then have "make_folder_name example_lib doc_a = Inr ''2025-01-15_Team-Sync-Q1-Q2''"
    by (simp add: sanitize_example)
  moreover from slug have "sanitize_filename ''Team  Sync: Q1/Q2 -- '' 50
      = sanitize_spec ''Team  Sync: Q1/Q2 -- ''"
    by blast
  then have "sanitize_spec ''Team  Sync: Q1/Q2 -- '' = ''Team-Sync-Q1-Q2''"
    by (simp add: sanitize_example)
  ultimately show ?thesis by blast
qed

section \<open>Transcript formatting: verified properties\<close>











section \<open>The resolver: verified properties\<close>

lemma scan_items_passes:
  "\<forall>d \<in> set before. passes_over lib st s d \<Longrightarrow>
   scan_items lib st s (before @ rest) = scan_items lib st s rest"
proof (induction before)
  case Nil
  then show ?case by simp
next
  case (Cons d before)
  then show ?case
    by (auto simp: passes_over_def then_do_def split: option.splits node.splits)
qed

lemma scan_items_first:
  assumes "\<forall>d \<in> set before. passes_over lib st s d"
    and "st item = Some (Dir files)" and "item_matches lib st item files s = Inr True"
  shows "scan_items lib st s (before @ item # rest) = Inr (Some item)"
  using scan_items_passes[OF assms(1), of "item # rest"] assms(2,3)
  by (simp add: then_do_def)

lemma scan_items_none:
  assumes "\<forall>d \<in> set listing. passes_over lib st s d"
  shows "scan_items lib st s listing = Inr None"
  using scan_items_passes[OF assms, of "[]"] by simp







section \<open>The store: verified properties\<close>

lemma write_meeting_ok:
  assumes "format_transcript lib doc transcript_data = Inr rendered"
    and "notes_writable doc" and "not_a_file (children storage) d"
  shows "write_meeting lib doc storage d transcript_data =
           Inr (True, Some ((children storage)
                  (d \<mapsto> Dir (dir_files (children storage) d
                              ++ record_files lib doc transcript_data rendered))))"
proof (cases "truthy (notes_of doc)")
  case False
  then have nf: "(case notes_of doc of
        JStr body \<Rightarrow> if body = [] then Map.empty else [''notes.md'' \<mapsto> body]
      | _ \<Rightarrow> Map.empty) = Map.empty"
    by (cases "notes_of doc") auto
  from False assms(1,3) show ?thesis
    unfolding write_meeting_def record_files_def nf
    by (auto simp: children_def dir_files_def not_a_file_def then_do_def Let_def py_or_def
        notes_of_def split: option.splits node.splits)
next
  case True
  with assms(2) obtain body where t: "notes_of doc = JStr body" "body \<noteq> []"
    by (cases "notes_of doc") (auto simp: notes_writable_def)
  have nf: "(case notes_of doc of
        JStr body \<Rightarrow> if body = [] then Map.empty else [''notes.md'' \<mapsto> body]
      | _ \<Rightarrow> Map.empty) = [''notes.md'' \<mapsto> body]"
    by (simp add: t)
  from t have t': "py_or (dict_get doc ''notes_markdown'') (dict_get doc ''notes_plain'') = JStr body"
    by (simp add: notes_of_def)
  from assms(1,3) t(2) show ?thesis
    unfolding write_meeting_def record_files_def nf t'
    by (auto simp: children_def dir_files_def not_a_file_def then_do_def Let_def py_or_def
        split: option.splits node.splits)
qed

lemma write_meeting_elim:
  assumes "write_meeting lib doc storage d transcript_data = Inr (w, storage')"
  shows "\<exists>rendered. format_transcript lib doc transcript_data = Inr rendered
           \<and> notes_writable doc \<and> not_a_file (children storage) d"
proof -
  from assms have nf: "not_a_file (children storage) d"
    by (auto simp: write_meeting_def not_a_file_def children_def Let_def split: option.splits node.splits)
  from assms obtain rendered where r: "format_transcript lib doc transcript_data = Inr rendered"
    by (cases "format_transcript lib doc transcript_data")
       (auto simp: write_meeting_def children_def Let_def then_do_def split: option.splits node.splits)
  from assms r have "notes_writable doc"
    by (cases "notes_of doc")
       (auto simp: write_meeting_def children_def Let_def then_do_def notes_writable_def notes_of_def
          split: option.splits node.splits if_splits json.splits)
  with nf r show ?thesis by blast
qed

lemma write_meeting_result:
  assumes "write_meeting lib doc storage d transcript_data = Inr (w, storage')"
  shows "\<exists>rendered. format_transcript lib doc transcript_data = Inr rendered
           \<and> w \<and> storage' = Some ((children storage)
                  (d \<mapsto> Dir (dir_files (children storage) d
                              ++ record_files lib doc transcript_data rendered)))"
proof -
  from write_meeting_elim[OF assms] obtain rendered where
    r: "format_transcript lib doc transcript_data = Inr rendered"
    and n: "notes_writable doc" and f: "not_a_file (children storage) d" by blast
  from write_meeting_ok[OF r n f] assms r show ?thesis by auto
qed

lemma record_files_metadata:
  "(files ++ record_files lib doc transcript_data rendered) ''metadata.json''
     = Some (json_dump lib (metadata_of doc))"
  by (auto simp: record_files_def map_add_def split: json.splits)

lemma record_files_document:
  "(files ++ record_files lib doc transcript_data rendered) ''document.json''
     = Some (json_dump lib (JObj doc))"
  by (auto simp: record_files_def map_add_def split: json.splits)

lemma passes_over_frame:
  "x \<noteq> d \<Longrightarrow> passes_over lib (st(d \<mapsto> n)) s x = passes_over lib st s x"
  by (auto simp: passes_over_def item_matches_def load_meeting_metadata_def
      split: option.splits node.splits)

lemma written_dir_matches:
  assumes "st d = Some (Dir files)"
    and "files ''metadata.json'' = Some (json_dump lib (metadata_of doc))"
    and "json_load lib (json_dump lib (metadata_of doc)) = Inr (metadata_of doc)"
    and "dict_get doc ''id'' = JStr s"
  shows "item_matches lib st d files s = Inr True"
  using assms
  by (simp add: item_matches_def load_meeting_metadata_def metadata_of_def id_startswith_def
      dict_get_default_def then_do_def)

lemma scan_items_found:
  "scan_items lib st s listing = Inr (Some d) \<Longrightarrow>
     d \<in> set listing \<and> (\<exists>files. st d = Some (Dir files))
     \<and> (\<forall>x \<in> set (takeWhile (\<lambda>x. x \<noteq> d) listing). passes_over lib st s x)"
proof (induction listing)
  case Nil
  then show ?case by simp
next
  case (Cons item items)
  show ?case
  proof (cases "passes_over lib st s item")
    case True
    with Cons.prems have "scan_items lib st s items = Inr (Some d)"
      by (auto simp: passes_over_def then_do_def split: option.splits node.splits)
    from Cons.IH[OF this] True show ?thesis by auto
  next
    case False
    then obtain files where f: "st item = Some (Dir files)"
      and m: "item_matches lib st item files s \<noteq> Inr False"
      by (auto simp: passes_over_def split: option.splits node.splits)
    from Cons.prems f m have "item = d"
      by (cases "item_matches lib st item files s") (auto simp: then_do_def split: if_splits)
    with f show ?thesis by simp
  qed
qed

lemma scan_items_not_found:
  "scan_items lib st s listing = Inr None \<Longrightarrow> \<forall>x \<in> set listing. passes_over lib st s x"
proof (induction listing)
  case Nil
  then show ?case by simp
next
  case (Cons item items)
  show ?case
  proof (cases "passes_over lib st s item")
    case True
    with Cons.prems have "scan_items lib st s items = Inr None"
      by (auto simp: passes_over_def then_do_def split: option.splits node.splits)
    from Cons.IH[OF this] True show ?thesis by auto
  next
    case False
    then obtain files where f: "st item = Some (Dir files)"
      and m: "item_matches lib st item files s \<noteq> Inr False"
      by (auto simp: passes_over_def split: option.splits node.splits)
    from Cons.prems f m have False
      by (cases "item_matches lib st item files s") (auto simp: then_do_def split: if_splits)
    then show ?thesis ..
  qed
qed

lemma find_after_write:
  assumes pc: "path_component s"
    and st': "st' = st(d \<mapsto> Dir files)"
    and meta: "files ''metadata.json'' = Some (json_dump lib (metadata_of doc))"
    and codec: "json_load lib (json_dump lib (metadata_of doc)) = Inr (metadata_of doc)"
    and ident: "dict_get doc ''id'' = JStr s"
    and direct: "st s \<noteq> None \<Longrightarrow> d = s"
    and listed: "d \<in> set listing'"
    and before: "st s = None \<Longrightarrow> \<forall>x \<in> set (takeWhile (\<lambda>x. x \<noteq> d) listing'). passes_over lib st s x"
  shows "find_meeting_dir lib listing' (Some st') (JStr s) = Inr (Some d)"
proof (cases "st' s = None")
  case False
  with st' direct have "d = s" by (auto split: if_splits)
  with False pc show ?thesis by (simp add: find_meeting_dir_def)
next
  case True
  with st' have none: "st s = None" and ne: "s \<noteq> d" by (auto split: if_splits)
  from split_list_first[OF listed] obtain ys rest where
    ys: "listing' = ys @ d # rest" "d \<notin> set ys" by blast
  from ys(2) have "takeWhile (\<lambda>x. x \<noteq> d) (ys @ d # rest) = ys"
    by (induction ys) auto
  with ys(1) have split: "listing' = takeWhile (\<lambda>x. x \<noteq> d) listing' @ d # rest"
    by simp
  have pre: "\<forall>x \<in> set (takeWhile (\<lambda>x. x \<noteq> d) listing'). passes_over lib st' s x"
  proof
    fix x assume x: "x \<in> set (takeWhile (\<lambda>x. x \<noteq> d) listing')"
    then have "x \<noteq> d" by (auto dest: set_takeWhileD)
    with before[OF none] x show "passes_over lib st' s x"
      by (simp add: st' passes_over_frame)
  qed
  have here: "st' d = Some (Dir files)" by (simp add: st')
  have m: "item_matches lib st' d files s = Inr True"
    using here meta codec ident by (rule written_dir_matches)
  have "scan_items lib st' s (takeWhile (\<lambda>x. x \<noteq> d) listing' @ d # rest) = Inr (Some d)"
    using pre here m by (rule scan_items_first)
  with split have "scan_items lib st' s listing' = Inr (Some d)" by simp
  with True pc show ?thesis by (simp add: find_meeting_dir_def)
qed

lemma py_eq_refl: "py_eq x x"
proof (induction x)
  case (JArr xs)
  then show ?case by (simp add: list_all2_same)
next
  case (JObj a)
  have "py_eq (dict_get a k) (dict_get a k)" if "k \<in> set (dict_keys a)" for k
  proof -
    from that have "k \<in> fst ` set a" by (simp add: dict_keys_def)
    then obtain v where v: "map_of a k = Some v"
      by (metis domD dom_map_of_conv_image_fst)
    then have "(k, v) \<in> set a" by (rule map_of_SomeD)
    from JObj[OF this] have "py_eq v v" by simp
    with v show ?thesis by (simp add: dict_get_def)
  qed
  then show ?case by (simp add: list_all_iff)
qed simp_all

lemma find_meeting_dir_cases:
  assumes "find_meeting_dir lib listing storage (JStr s) = Inr found"
  shows "(storage = None \<and> found = None)
       \<or> (\<exists>st. storage = Some st \<and> path_component s
              \<and> (if st s \<noteq> None then found = Some s
                  else scan_items lib st s listing = Inr found))"
  using assms by (cases storage) (auto simp: find_meeting_dir_def split: if_splits)

lemma find_meeting_dir_facts:
  assumes "find_meeting_dir lib listing storage (JStr s) = Inr found"
  shows "(children storage s \<noteq> None \<longrightarrow> found = Some s)
       \<and> (children storage s = None \<longrightarrow>
            (case found of
               Some d \<Rightarrow> \<forall>x \<in> set (takeWhile (\<lambda>x. x \<noteq> d) listing).
                           passes_over lib (children storage) s x
             | None \<Rightarrow> \<forall>x \<in> set listing. passes_over lib (children storage) s x))"
proof -
  from find_meeting_dir_cases[OF assms] show ?thesis
  proof
    assume "storage = None \<and> found = None"
    then show ?thesis by (simp add: children_def passes_over_def)
  next
    assume "\<exists>st. storage = Some st \<and> path_component s
              \<and> (if st s \<noteq> None then found = Some s
                  else scan_items lib st s listing = Inr found)"
    then obtain st where st: "storage = Some st"
      and r: "if st s \<noteq> None then found = Some s else scan_items lib st s listing = Inr found"
      by blast
    show ?thesis
    proof (cases "st s = None")
      case False
      with r st show ?thesis by (auto simp: children_def)
    next
      case True
      with r have scan: "scan_items lib st s listing = Inr found" by simp
      show ?thesis
      proof (cases found)
        case None
        with scan scan_items_not_found[of lib st s listing] True st show ?thesis
          by (simp add: children_def)
      next
        case (Some d)
        with scan scan_items_found[of lib st s listing d] True st show ?thesis
          by (simp add: children_def)
      qed
    qed
  qed
qed

lemma save_written:
  assumes save: "save_meeting lib listing doc storage td force = Inr (True, storage')"
    and ident: "dict_get doc ''id'' = JStr s"
  shows "\<exists>d found. write_meeting lib doc storage d td = Inr (True, storage')
           \<and> find_meeting_dir lib listing storage (JStr s) = Inr found
           \<and> (case found of Some e \<Rightarrow> d = e
               | None \<Rightarrow> new_folder lib doc storage (JStr s) = Inr d)
           \<and> (children storage s \<noteq> None \<longrightarrow> d = s)
           \<and> (children storage s = None \<longrightarrow>
                (\<forall>x \<in> set (takeWhile (\<lambda>x. x \<noteq> d) listing).
                    passes_over lib (children storage) s x))"
proof -
  from save ident obtain found where
    f: "find_meeting_dir lib listing storage (JStr s) = Inr found"
    by (cases "find_meeting_dir lib listing storage (JStr s)")
       (auto simp: save_meeting_def then_do_def Let_def split: if_splits)
  note facts = find_meeting_dir_facts[OF f]
  show ?thesis
  proof (cases found)
    case (Some d)
    with save ident f have w: "write_meeting lib doc storage d td = Inr (True, storage')"
      by (auto simp: save_meeting_def then_do_def Let_def split: if_splits sum.splits)
    from facts Some w f show ?thesis by auto
  next
    case None
    with save ident f obtain d where
      w: "write_meeting lib doc storage d td = Inr (True, storage')"
      and n: "new_folder lib doc storage (JStr s) = Inr d"
      by (auto simp: save_meeting_def then_do_def Let_def split: if_splits sum.splits)
    from facts None have
      "children storage s = None \<and> (\<forall>x \<in> set listing. passes_over lib (children storage) s x)"
      by auto
    then have "children storage s = None"
      and "\<forall>x \<in> set (takeWhile (\<lambda>x. x \<noteq> d) listing). passes_over lib (children storage) s x"
      by (auto dest: set_takeWhileD)
    with w n f None show ?thesis by auto
  qed
qed

lemma listing_after_write:
  assumes e: "enumerates listing storage" and e': "enumerates listing' storage'"
    and so: "same_order listing listing'"
    and dom': "dom (children storage') = insert d (dom (children storage))"
  shows "d \<in> set listing'
       \<and> set (takeWhile (\<lambda>x. x \<noteq> d) listing') \<subseteq> set (takeWhile (\<lambda>x. x \<noteq> d) listing)"
proof -
  from e' dom' have din: "d \<in> set listing'" by (simp add: enumerates_def)
  from so show ?thesis unfolding same_order_def
  proof
    assume "listing' = listing"
    with din show ?thesis by simp
  next
    assume "\<exists>n \<in> set listing'. remove1 n listing' = listing"
    then obtain n where n: "n \<in> set listing'" and r: "remove1 n listing' = listing" by blast
    from e' have dist: "distinct listing'" by (simp add: enumerates_def)
    from dist r have nn: "n \<notin> set listing" by auto
    have "n = d"
    proof (rule ccontr)
      assume "n \<noteq> d"
      with n e' dom' have "n \<in> dom (children storage)" by (auto simp: enumerates_def)
      with e nn show False by (simp add: enumerates_def)
    qed
    with nn have tw: "takeWhile (\<lambda>x. x \<noteq> d) listing = listing"
      by auto
    have "set (takeWhile (\<lambda>x. x \<noteq> d) listing') \<subseteq> set listing"
    proof
      fix x assume "x \<in> set (takeWhile (\<lambda>x. x \<noteq> d) listing')"
      then have "x \<in> set listing'" "x \<noteq> d" by (auto dest: set_takeWhileD)
      with r \<open>n = d\<close> show "x \<in> set listing" by auto
    qed
    with din show ?thesis unfolding tw by blast
  qed
qed

lemma resolve_after_save:
  assumes save: "save_meeting lib listing doc storage td force = Inr (True, storage')"
    and ident: "dict_get doc ''id'' = JStr s" and pc: "path_component s"
    and codec: "json_load lib (json_dump lib (metadata_of doc)) = Inr (metadata_of doc)"
    and e: "enumerates listing storage" and e': "enumerates listing' storage'"
    and so: "same_order listing listing'"
  shows "\<exists>d files found.
           find_meeting_dir lib listing' storage' (JStr s) = Inr (Some d)
         \<and> children storage' d = Some (Dir files)
         \<and> files ''metadata.json'' = Some (json_dump lib (metadata_of doc))
         \<and> find_meeting_dir lib listing storage (JStr s) = Inr found
         \<and> (case found of Some e \<Rightarrow> d = e
             | None \<Rightarrow> new_folder lib doc storage (JStr s) = Inr d)"
proof -
  from save_written[OF save ident] obtain d found where all:
    "write_meeting lib doc storage d td = Inr (True, storage')
     \<and> find_meeting_dir lib listing storage (JStr s) = Inr found
     \<and> (case found of Some e \<Rightarrow> d = e
         | None \<Rightarrow> new_folder lib doc storage (JStr s) = Inr d)
     \<and> (children storage s \<noteq> None \<longrightarrow> d = s)
     \<and> (children storage s = None \<longrightarrow>
          (\<forall>x \<in> set (takeWhile (\<lambda>x. x \<noteq> d) listing).
              passes_over lib (children storage) s x))"
    by (elim exE) (rule that)
  from all have w: "write_meeting lib doc storage d td = Inr (True, storage')" by simp
  from all have f: "find_meeting_dir lib listing storage (JStr s) = Inr found" by simp
  from all have fd: "case found of Some e \<Rightarrow> d = e
      | None \<Rightarrow> new_folder lib doc storage (JStr s) = Inr d" by simp
  from all have direct: "children storage s \<noteq> None \<longrightarrow> d = s" by simp
  from all have scan: "children storage s = None \<longrightarrow>
                (\<forall>x \<in> set (takeWhile (\<lambda>x. x \<noteq> d) listing).
                    passes_over lib (children storage) s x)" by simp
  from write_meeting_result[OF w] obtain rendered where
    st': "storage' = Some ((children storage)
            (d \<mapsto> Dir (dir_files (children storage) d ++ record_files lib doc td rendered)))"
    by blast
  define files where "files = dir_files (children storage) d ++ record_files lib doc td rendered"
  define st1 where "st1 = (children storage)(d \<mapsto> Dir files)"
  from st' have s1: "storage' = Some st1" by (simp add: st1_def files_def)
  have st1: "st1 = (children storage)(d \<mapsto> Dir files)" by (rule st1_def)
  have meta: "files ''metadata.json'' = Some (json_dump lib (metadata_of doc))"
    unfolding files_def by (rule record_files_metadata)
  have dom': "dom (children storage') = insert d (dom (children storage))"
    by (simp add: s1 st1_def children_def)
  from listing_after_write[OF e e' so dom'] have listed: "d \<in> set listing'"
    and sub: "set (takeWhile (\<lambda>x. x \<noteq> d) listing') \<subseteq> set (takeWhile (\<lambda>x. x \<noteq> d) listing)"
    by auto
  have direct': "children storage s \<noteq> None \<Longrightarrow> d = s" using direct by simp
  have before: "children storage s = None \<Longrightarrow>
      \<forall>x \<in> set (takeWhile (\<lambda>x. x \<noteq> d) listing'). passes_over lib (children storage) s x"
    using scan sub by blast
  have "find_meeting_dir lib listing' (Some st1) (JStr s) = Inr (Some d)"
    using pc st1 meta codec ident direct' listed before by (rule find_after_write)
  with s1 meta f fd show ?thesis by (auto simp: st1_def children_def)
qed

lemma save_into_existing:
  assumes f: "find_meeting_dir lib listing storage (dict_get doc ''id'') = Inr (Some d)"
    and t: "truthy (dict_get doc ''id'')"
    and dir: "children storage d = Some (Dir files)"
    and save: "save_meeting lib listing doc storage td force = Inr (w, storage')"
  shows "dom (children storage') = dom (children storage)
       \<and> (\<forall>n. n \<noteq> d \<longrightarrow> children storage' n = children storage n)
       \<and> (w \<longrightarrow> (\<exists>rendered. format_transcript lib doc td = Inr rendered
                  \<and> children storage' d = Some (Dir (files ++ record_files lib doc td rendered))))
       \<and> (\<not> w \<longrightarrow> storage' = storage)"
proof -
  from save f t have
    "(\<not> w \<and> storage' = storage) \<or> write_meeting lib doc storage d td = Inr (w, storage')"
    by (auto simp: save_meeting_def then_do_def Let_def split: if_splits sum.splits)
  then show ?thesis
  proof
    assume "\<not> w \<and> storage' = storage"
    then show ?thesis by simp
  next
    assume "write_meeting lib doc storage d td = Inr (w, storage')"
    from write_meeting_result[OF this] obtain rendered where
      r: "format_transcript lib doc td = Inr rendered" and w: w
      and st': "storage' = Some ((children storage)
            (d \<mapsto> Dir (dir_files (children storage) d ++ record_files lib doc td rendered)))"
      by blast
    from dir have df: "dir_files (children storage) d = files" by (simp add: dir_files_def)
    from dir have "insert d (dom (children storage)) = dom (children storage)" by auto
    with r w st' df show ?thesis by (auto simp: children_def)
  qed
qed

lemma save_new:
  assumes "truthy (dict_get doc ''id'')"
    and "find_meeting_dir lib listing storage (dict_get doc ''id'') = Inr None"
    and "new_folder lib doc storage (dict_get doc ''id'') = Inr d"
    and "format_transcript lib doc td = Inr rendered"
    and "notes_writable doc" and "not_a_file (children storage) d"
  shows "save_meeting lib listing doc storage td force =
           Inr (True, Some ((children storage)
                  (d \<mapsto> Dir (dir_files (children storage) d ++ record_files lib doc td rendered))))"
  using assms(1-3) write_meeting_ok[OF assms(4-6)]
  by (simp add: save_meeting_def then_do_def Let_def)

lemma save_overwrites:
  assumes "truthy (dict_get doc ''id'')"
    and "find_meeting_dir lib listing storage (dict_get doc ''id'') = Inr (Some d)"
    and "children storage d = Some (Dir files)"
    and "force \<or> unchanged lib (children storage) d doc = Inr False"
    and "format_transcript lib doc td = Inr rendered"
    and "notes_writable doc"
  shows "save_meeting lib listing doc storage td force =
           Inr (True, Some ((children storage)
                  (d \<mapsto> Dir (files ++ record_files lib doc td rendered))))"
proof -
  from assms(3) have nf: "not_a_file (children storage) d" by (simp add: not_a_file_def)
  from assms(3) have df: "dir_files (children storage) d = files" by (simp add: dir_files_def)
  from assms(1,2,4) write_meeting_ok[OF assms(5,6) nf] show ?thesis
    by (auto simp: save_meeting_def then_do_def Let_def df)
qed

lemma second_save_skips:
  assumes save: "save_meeting lib listing doc storage td force = Inr (True, storage')"
    and ident: "dict_get doc ''id'' = JStr s" and pc: "path_component s"
    and codec: "json_load lib (json_dump lib (metadata_of doc)) = Inr (metadata_of doc)"
    and e: "enumerates listing storage" and e': "enumerates listing' storage'"
    and so: "same_order listing listing'"
  shows "save_meeting lib listing' doc storage' td' False = Inr (False, storage')"
proof -
  from resolve_after_save[OF save ident pc codec e e' so] obtain d files where
    f: "find_meeting_dir lib listing' storage' (JStr s) = Inr (Some d)"
    and dir: "children storage' d = Some (Dir files)"
    and meta: "files ''metadata.json'' = Some (json_dump lib (metadata_of doc))"
    by blast
  from dir meta codec have load:
    "load_meeting_metadata lib (children storage') d = Inr (metadata_of doc)"
    by (simp add: load_meeting_metadata_def)
  have "unchanged lib (children storage') d doc = Inr True"
    by (simp add: unchanged_def then_do_def load metadata_of_def dict_get_def py_eq_refl)
  with f ident pc show ?thesis
    by (auto simp: save_meeting_def then_do_def Let_def path_component_def)
qed

text \<open>
  Claim C1. A save without \<open>force\<close> of a document with an id, for which the resolver
  finds a directory whose metadata parses to a non-empty object with an \<open>updated_at\<close>
  equal to the document's, returns "skipped" and leaves the storage root as it is:
  no file of any directory changes. And after a save that wrote, a second save of
  the same document without \<open>force\<close> is such a skip, so that the loop of \<open>cmd_sync\<close>
  over the document twice, when its title can be sliced for the progress line,
  counts one write and one skip; here the id is a string
  and a single path component, the codec reads back the metadata it wrote, and the
  second enumeration of the root keeps the order of the first.
\<close>

theorem save_unchanged_is_skip:
  "(truthy (dict_get doc ''id'')
      \<and> find_meeting_dir lib listing storage (dict_get doc ''id'') = Inr (Some d)
      \<and> load_meeting_metadata lib (children storage) d = Inr (JObj md) \<and> md \<noteq> []
      \<and> py_eq (dict_get md ''updated_at'') (dict_get doc ''updated_at'')
      \<longrightarrow> save_meeting lib listing doc storage td False = Inr (False, storage))
   \<and> (save_meeting lib listing doc storage td force = Inr (True, storage')
      \<and> dict_get doc ''id'' = JStr s \<and> path_component s
      \<and> json_load lib (json_dump lib (metadata_of doc)) = Inr (metadata_of doc)
      \<and> enumerates listing storage \<and> enumerates listing' storage'
      \<and> same_order listing listing'
      \<longrightarrow> save_meeting lib listing' doc storage' td' False = Inr (False, storage')
        \<and> (\<not> force \<and> progress_title doc = Inr title \<longrightarrow>
             sync_loop lib False [(listing, doc, td), (listing', doc, td')] storage
               = Inr (1, 1, storage')))"
proof (intro conjI impI)
  assume a: "truthy (dict_get doc ''id'')
      \<and> find_meeting_dir lib listing storage (dict_get doc ''id'') = Inr (Some d)
      \<and> load_meeting_metadata lib (children storage) d = Inr (JObj md) \<and> md \<noteq> []
      \<and> py_eq (dict_get md ''updated_at'') (dict_get doc ''updated_at'')"
  then have "unchanged lib (children storage) d doc = Inr True"
    by (simp add: unchanged_def then_do_def)
  with a show "save_meeting lib listing doc storage td False = Inr (False, storage)"
    by (simp add: save_meeting_def then_do_def Let_def)
next
  assume b: "save_meeting lib listing doc storage td force = Inr (True, storage')
      \<and> dict_get doc ''id'' = JStr s \<and> path_component s
      \<and> json_load lib (json_dump lib (metadata_of doc)) = Inr (metadata_of doc)
      \<and> enumerates listing storage \<and> enumerates listing' storage'
      \<and> same_order listing listing'"
  then show "save_meeting lib listing' doc storage' td' False = Inr (False, storage')"
    by (intro second_save_skips[of lib listing doc storage td force storage' s listing' td'])
       simp_all
next
  assume b: "save_meeting lib listing doc storage td force = Inr (True, storage')
      \<and> dict_get doc ''id'' = JStr s \<and> path_component s
      \<and> json_load lib (json_dump lib (metadata_of doc)) = Inr (metadata_of doc)
      \<and> enumerates listing storage \<and> enumerates listing' storage'
      \<and> same_order listing listing'"
    and nf: "\<not> force \<and> progress_title doc = Inr title"
  from b have second: "save_meeting lib listing' doc storage' td' False = Inr (False, storage')"
    by (intro second_save_skips[of lib listing doc storage td force storage' s listing' td'])
       simp_all
  from b nf have first: "save_meeting lib listing doc storage td False = Inr (True, storage')"
    by simp
  from first second nf
  show "sync_loop lib False [(listing, doc, td), (listing', doc, td')] storage
      = Inr (1, 1, storage')"
    by (simp add: then_do_def)
qed







lemma anchoredE:
  assumes "anchored lib listing s storage d"
  obtains files doc where
    "children storage d = Some (Dir files)"
    and "files ''metadata.json'' = Some (json_dump lib (metadata_of doc))"
    and "json_load lib (json_dump lib (metadata_of doc)) = Inr (metadata_of doc)"
    and "dict_get doc ''id'' = JStr s"
    and "children storage s \<noteq> None \<longrightarrow> d = s"
    and "d \<in> set listing"
    and "children storage s = None \<longrightarrow>
           (\<forall>x \<in> set (takeWhile (\<lambda>x. x \<noteq> d) listing).
               passes_over lib (children storage) s x)"
proof -
  from assms obtain files doc where all:
    "children storage d = Some (Dir files)
     \<and> files ''metadata.json'' = Some (json_dump lib (metadata_of doc))
     \<and> json_load lib (json_dump lib (metadata_of doc)) = Inr (metadata_of doc)
     \<and> dict_get doc ''id'' = JStr s
     \<and> (children storage s \<noteq> None \<longrightarrow> d = s)
     \<and> d \<in> set listing
     \<and> (children storage s = None \<longrightarrow>
          (\<forall>x \<in> set (takeWhile (\<lambda>x. x \<noteq> d) listing).
              passes_over lib (children storage) s x))"
    unfolding anchored_def by (elim exE) (rule that)
  show thesis
    by (rule that[of files doc]) (use all in simp_all)
qed

lemma anchoredI:
  assumes "children storage d = Some (Dir files)"
    and "files ''metadata.json'' = Some (json_dump lib (metadata_of doc))"
    and "json_load lib (json_dump lib (metadata_of doc)) = Inr (metadata_of doc)"
    and "dict_get doc ''id'' = JStr s"
    and "children storage s \<noteq> None \<longrightarrow> d = s"
    and "d \<in> set listing"
    and "children storage s = None \<longrightarrow>
           (\<forall>x \<in> set (takeWhile (\<lambda>x. x \<noteq> d) listing).
               passes_over lib (children storage) s x)"
  shows "anchored lib listing s storage d"
  unfolding anchored_def
  by (rule exI[of _ files], rule exI[of _ doc]) (use assms in simp)

lemma passes_over_same_child:
  "st' x = st x \<Longrightarrow> passes_over lib st' s x = passes_over lib st s x"
  by (auto simp: passes_over_def item_matches_def load_meeting_metadata_def
      split: option.splits node.splits)

lemma anchored_find:
  assumes a: "anchored lib listing s storage d" and pc: "path_component s"
  shows "find_meeting_dir lib listing storage (JStr s) = Inr (Some d)"
proof -
  from a obtain files doc where
    dir: "children storage d = Some (Dir files)"
    and meta: "files ''metadata.json'' = Some (json_dump lib (metadata_of doc))"
    and codec: "json_load lib (json_dump lib (metadata_of doc)) = Inr (metadata_of doc)"
    and ident: "dict_get doc ''id'' = JStr s"
    and direct: "children storage s \<noteq> None \<longrightarrow> d = s"
    and listed: "d \<in> set listing"
    and before: "children storage s = None \<longrightarrow>
           (\<forall>x \<in> set (takeWhile (\<lambda>x. x \<noteq> d) listing).
               passes_over lib (children storage) s x)"
    by (rule anchoredE)
  from dir obtain st where st: "storage = Some st" "children storage = st"
    by (cases storage) (auto simp: children_def)
  from dir st have upd: "st = st(d \<mapsto> Dir files)" by (simp add: fun_upd_idem)
  have d1: "st s \<noteq> None \<Longrightarrow> d = s" using direct st by simp
  have b1: "st s = None \<Longrightarrow>
      \<forall>x \<in> set (takeWhile (\<lambda>x. x \<noteq> d) listing). passes_over lib st s x"
    using before st by simp
  have "find_meeting_dir lib listing (Some st) (JStr s) = Inr (Some d)"
    using pc upd meta codec ident d1 listed b1 by (rule find_after_write)
  with st show ?thesis by simp
qed

lemma anchored_step:
  assumes a: "anchored lib listing s storage d" and pc: "path_component s"
    and ident': "dict_get doc' ''id'' = JStr s"
    and codec': "json_load lib (json_dump lib (metadata_of doc')) = Inr (metadata_of doc')"
    and save: "save_meeting lib listing doc' storage td force = Inr (w, storage')"
  shows "anchored lib listing s storage' d
       \<and> dom (children storage') = dom (children storage)
       \<and> (\<forall>n. n \<noteq> d \<longrightarrow> children storage' n = children storage n)"
proof -
  from a obtain files doc where
    dir: "children storage d = Some (Dir files)"
    and meta: "files ''metadata.json'' = Some (json_dump lib (metadata_of doc))"
    and codec: "json_load lib (json_dump lib (metadata_of doc)) = Inr (metadata_of doc)"
    and ident: "dict_get doc ''id'' = JStr s"
    and direct: "children storage s \<noteq> None \<longrightarrow> d = s"
    and listed: "d \<in> set listing"
    and before: "children storage s = None \<longrightarrow>
           (\<forall>x \<in> set (takeWhile (\<lambda>x. x \<noteq> d) listing).
               passes_over lib (children storage) s x)"
    by (rule anchoredE)
  from pc have t: "truthy (dict_get doc' ''id'')" by (simp add: ident' path_component_def)
  from anchored_find[OF a pc]
  have f: "find_meeting_dir lib listing storage (dict_get doc' ''id'') = Inr (Some d)"
    by (simp add: ident')
  from save_into_existing[OF f t dir save] have
    dom': "dom (children storage') = dom (children storage)"
    and others: "\<forall>n. n \<noteq> d \<longrightarrow> children storage' n = children storage n"
    and wrote: "w \<longrightarrow> (\<exists>rendered. format_transcript lib doc' td = Inr rendered
          \<and> children storage' d = Some (Dir (files ++ record_files lib doc' td rendered)))"
    and skipped: "\<not> w \<longrightarrow> storage' = storage"
    by auto
  have "anchored lib listing s storage' d"
  proof (cases w)
    case False
    with skipped a show ?thesis by simp
  next
    case True
    with wrote obtain rendered where
      dir': "children storage' d = Some (Dir (files ++ record_files lib doc' td rendered))"
      by blast
    have meta': "(files ++ record_files lib doc' td rendered) ''metadata.json''
        = Some (json_dump lib (metadata_of doc'))"
      by (rule record_files_metadata)
    have direct': "children storage' s \<noteq> None \<longrightarrow> d = s"
      using direct others by (cases "s = d") auto
    have before': "children storage' s = None \<longrightarrow>
           (\<forall>x \<in> set (takeWhile (\<lambda>x. x \<noteq> d) listing).
               passes_over lib (children storage') s x)"
    proof (intro impI ballI)
      fix x
      assume none: "children storage' s = None"
        and x: "x \<in> set (takeWhile (\<lambda>x. x \<noteq> d) listing)"
      from none dir' have "s \<noteq> d" by auto
      with none others have "children storage s = None" by auto
      with before x have p: "passes_over lib (children storage) s x" by blast
      from x have "x \<noteq> d" by (auto dest: set_takeWhileD)
      with others have "children storage' x = children storage x" by simp
      from passes_over_same_child[where st' = "children storage'" and st = "children storage"
          and x = x, OF this] p
      show "passes_over lib (children storage') s x" by simp
    qed
    from dir' meta' codec' ident' direct' listed before' show ?thesis
      by (rule anchoredI)
  qed
  with dom' others show ?thesis by blast
qed

lemma anchored_after_save:
  assumes save: "save_meeting lib listing doc storage td force = Inr (True, storage')"
    and ident: "dict_get doc ''id'' = JStr s"
    and codec: "json_load lib (json_dump lib (metadata_of doc)) = Inr (metadata_of doc)"
    and e: "enumerates listing storage" and e': "enumerates listing' storage'"
    and so: "same_order listing listing'"
  shows "\<exists>d found. anchored lib listing' s storage' d
         \<and> find_meeting_dir lib listing storage (JStr s) = Inr found
         \<and> (case found of Some e \<Rightarrow> d = e
             | None \<Rightarrow> new_folder lib doc storage (JStr s) = Inr d)"
proof -
  from save_written[OF save ident] obtain d found where all:
    "write_meeting lib doc storage d td = Inr (True, storage')
     \<and> find_meeting_dir lib listing storage (JStr s) = Inr found
     \<and> (case found of Some e \<Rightarrow> d = e
         | None \<Rightarrow> new_folder lib doc storage (JStr s) = Inr d)
     \<and> (children storage s \<noteq> None \<longrightarrow> d = s)
     \<and> (children storage s = None \<longrightarrow>
          (\<forall>x \<in> set (takeWhile (\<lambda>x. x \<noteq> d) listing).
              passes_over lib (children storage) s x))"
    by (elim exE) (rule that)
  from all have w: "write_meeting lib doc storage d td = Inr (True, storage')" by simp
  from all have f: "find_meeting_dir lib listing storage (JStr s) = Inr found" by simp
  from all have fd: "case found of Some e \<Rightarrow> d = e
      | None \<Rightarrow> new_folder lib doc storage (JStr s) = Inr d" by simp
  from all have direct: "children storage s \<noteq> None \<longrightarrow> d = s" by simp
  from all have scan: "children storage s = None \<longrightarrow>
                (\<forall>x \<in> set (takeWhile (\<lambda>x. x \<noteq> d) listing).
                    passes_over lib (children storage) s x)" by simp
  from write_meeting_result[OF w] obtain rendered where
    st': "storage' = Some ((children storage)
            (d \<mapsto> Dir (dir_files (children storage) d ++ record_files lib doc td rendered)))"
    by blast
  define files where "files = dir_files (children storage) d ++ record_files lib doc td rendered"
  from st' have ch: "children storage' = (children storage)(d \<mapsto> Dir files)"
    by (simp add: files_def children_def)
  have dir: "children storage' d = Some (Dir files)" by (simp add: ch)
  have meta: "files ''metadata.json'' = Some (json_dump lib (metadata_of doc))"
    unfolding files_def by (rule record_files_metadata)
  have dom': "dom (children storage') = insert d (dom (children storage))"
    by (simp add: ch)
  from listing_after_write[OF e e' so dom'] have listed: "d \<in> set listing'"
    and sub: "set (takeWhile (\<lambda>x. x \<noteq> d) listing') \<subseteq> set (takeWhile (\<lambda>x. x \<noteq> d) listing)"
    by auto
  have direct': "children storage' s \<noteq> None \<longrightarrow> d = s"
    using direct by (cases "s = d") (auto simp: ch)
  have before': "children storage' s = None \<longrightarrow>
      (\<forall>x \<in> set (takeWhile (\<lambda>x. x \<noteq> d) listing'). passes_over lib (children storage') s x)"
  proof (intro impI ballI)
    fix x
    assume none: "children storage' s = None"
      and x: "x \<in> set (takeWhile (\<lambda>x. x \<noteq> d) listing')"
    from none have "s \<noteq> d" by (auto simp: ch)
    with none have "children storage s = None" by (simp add: ch)
    with scan sub x have p: "passes_over lib (children storage) s x" by blast
    from x have "x \<noteq> d" by (auto dest: set_takeWhileD)
    then have "children storage' x = children storage x" by (simp add: ch)
    from passes_over_same_child[where st' = "children storage'" and st = "children storage"
        and x = x, OF this] p
    show "passes_over lib (children storage') s x" by simp
  qed
  from dir meta codec ident direct' listed before'
  have "anchored lib listing' s storage' d" by (rule anchoredI)
  with f fd show ?thesis by blast
qed

lemma anchored_sync_loop:
  assumes pc: "path_component s"
  shows "anchored lib listing s storage d \<Longrightarrow>
     \<forall>(l, doc, td) \<in> set calls. l = listing \<and> dict_get doc ''id'' = JStr s
        \<and> json_load lib (json_dump lib (metadata_of doc)) = Inr (metadata_of doc) \<Longrightarrow>
     sync_loop lib force calls storage = Inr (synced, skipped, final) \<Longrightarrow>
     anchored lib listing s final d
     \<and> dom (children final) = dom (children storage)
     \<and> (\<forall>n. n \<noteq> d \<longrightarrow> children final n = children storage n)"
proof (induction calls arbitrary: storage synced skipped)
  case Nil
  then show ?case by simp
next
  case (Cons call calls)
  obtain l doc td where call: "call = (l, doc, td)" by (cases call)
  from Cons.prems(2) call have l: "l = listing" and ident: "dict_get doc ''id'' = JStr s"
    and codec: "json_load lib (json_dump lib (metadata_of doc)) = Inr (metadata_of doc)"
    and rest: "\<forall>(l, doc, td) \<in> set calls. l = listing \<and> dict_get doc ''id'' = JStr s
        \<and> json_load lib (json_dump lib (metadata_of doc)) = Inr (metadata_of doc)"
    by auto
  from Cons.prems(3) call l obtain w storage' synced' skipped' where
    save: "save_meeting lib listing doc storage td force = Inr (w, storage')"
    and loop: "sync_loop lib force calls storage' = Inr (synced', skipped', final)"
    by (auto simp: then_do_def split: sum.splits prod.splits if_splits)
  from anchored_step[OF Cons.prems(1) pc ident codec save] have
    a': "anchored lib listing s storage' d"
    and d': "dom (children storage') = dom (children storage)"
    and o': "\<forall>n. n \<noteq> d \<longrightarrow> children storage' n = children storage n"
    by auto
  from Cons.IH[OF a' rest loop] d' o' show ?case by auto
qed


text \<open>
  Claim C5. A save of a document wrote into a directory: the one the resolver
  found, or at creation the one named by \<open>new_folder\<close> from the date and the
  sanitized title. Then after every sequence of later saves of documents with the
  same id, whatever their titles, the resolver still finds that directory, the root
  has the same names, every other child is as it was, and a further save that writes
  lays its files over that directory. The id is a string and a single path
  component, the codec reads back the metadata it writes, and the enumeration keeps
  its order.
\<close>

theorem directory_name_is_sticky:
  assumes first: "save_meeting lib listing doc storage td force = Inr (True, storage1)"
    and ident: "dict_get doc ''id'' = JStr s" and pc: "path_component s"
    and codec: "json_load lib (json_dump lib (metadata_of doc)) = Inr (metadata_of doc)"
    and e: "enumerates listing storage" and e': "enumerates listing1 storage1"
    and so: "same_order listing listing1"
    and later: "\<forall>(l, doc', td') \<in> set calls. l = listing1 \<and> dict_get doc' ''id'' = JStr s
        \<and> json_load lib (json_dump lib (metadata_of doc')) = Inr (metadata_of doc')"
    and run: "sync_loop lib force' calls storage1 = Inr (synced, skipped, final)"
  shows "\<exists>d found files.
           find_meeting_dir lib listing storage (JStr s) = Inr found
         \<and> (case found of Some e \<Rightarrow> d = e
             | None \<Rightarrow> new_folder lib doc storage (JStr s) = Inr d)
         \<and> find_meeting_dir lib listing1 storage1 (JStr s) = Inr (Some d)
         \<and> find_meeting_dir lib listing1 final (JStr s) = Inr (Some d)
         \<and> children final d = Some (Dir files)
         \<and> dom (children final) = dom (children storage1)
         \<and> (\<forall>n. n \<noteq> d \<longrightarrow> children final n = children storage1 n)
         \<and> (\<forall>doc2 td2 force2 storage2.
               dict_get doc2 ''id'' = JStr s
               \<and> save_meeting lib listing1 doc2 final td2 force2 = Inr (True, storage2)
               \<longrightarrow> (\<exists>rendered. format_transcript lib doc2 td2 = Inr rendered
                     \<and> children storage2 d
                         = Some (Dir (files ++ record_files lib doc2 td2 rendered))))"
proof -
  from anchored_after_save[OF first ident codec e e' so] obtain d found where
    a1: "anchored lib listing1 s storage1 d"
    and f: "find_meeting_dir lib listing storage (JStr s) = Inr found"
    and fd: "case found of Some e \<Rightarrow> d = e
             | None \<Rightarrow> new_folder lib doc storage (JStr s) = Inr d"
    by blast
  from anchored_sync_loop[OF pc a1 later run] have
    an: "anchored lib listing1 s final d"
    and dn: "dom (children final) = dom (children storage1)"
    and others: "\<forall>n. n \<noteq> d \<longrightarrow> children final n = children storage1 n"
    by auto
  from an obtain files where dir: "children final d = Some (Dir files)"
    by (rule anchoredE)
  have next_save: "\<exists>rendered. format_transcript lib doc2 td2 = Inr rendered
         \<and> children storage2 d = Some (Dir (files ++ record_files lib doc2 td2 rendered))"
    if i2: "dict_get doc2 ''id'' = JStr s"
      and s2: "save_meeting lib listing1 doc2 final td2 force2 = Inr (True, storage2)"
    for doc2 td2 force2 storage2
  proof -
    from pc have t: "truthy (dict_get doc2 ''id'')" by (simp add: i2 path_component_def)
    from anchored_find[OF an pc]
    have f2: "find_meeting_dir lib listing1 final (dict_get doc2 ''id'') = Inr (Some d)"
      by (simp add: i2)
    from save_into_existing[OF f2 t dir s2] show ?thesis by simp
  qed
  from f fd anchored_find[OF a1 pc] anchored_find[OF an pc] dir dn others next_save
  show ?thesis by blast
qed

text \<open>
  Claim C6, as amended. Two documents with the same slug are saved one after the
  other into an empty store. When the resolver finds no directory for the id of the
  second, the first save creates the directory named by the slug and the second the
  directory named by the slug, an underscore and the first eight characters of its
  id; the two names differ.
\<close>

theorem collision_gets_id_suffix:
  assumes empty: "children storage = Map.empty"
    and ident1: "dict_get doc1 ''id'' = JStr s1" and pc1: "path_component s1"
    and ident2: "dict_get doc2 ''id'' = JStr s2" and pc2: "path_component s2"
    and slug1: "make_folder_name lib doc1 = Inr slug"
    and slug2: "make_folder_name lib doc2 = Inr slug"
    and pcs: "path_component slug" and pcx: "path_component (slug @ ''_'' @ take 8 s2)"
    and r1: "format_transcript lib doc1 td1 = Inr rendered1" and n1: "notes_writable doc1"
    and r2: "format_transcript lib doc2 td2 = Inr rendered2" and n2: "notes_writable doc2"
    and nomatch: "find_meeting_dir lib listing2
                    (Some [slug \<mapsto> Dir (record_files lib doc1 td1 rendered1)]) (JStr s2) = Inr None"
  shows "save_meeting lib listing1 doc1 storage td1 force1 =
           Inr (True, Some [slug \<mapsto> Dir (record_files lib doc1 td1 rendered1)])
       \<and> save_meeting lib listing2 doc2
             (Some [slug \<mapsto> Dir (record_files lib doc1 td1 rendered1)]) td2 force2 =
           Inr (True, Some [slug \<mapsto> Dir (record_files lib doc1 td1 rendered1),
                            slug @ ''_'' @ take 8 s2 \<mapsto> Dir (record_files lib doc2 td2 rendered2)])
       \<and> slug \<noteq> slug @ ''_'' @ take 8 s2"
proof (intro conjI)
  show ne: "slug \<noteq> slug @ ''_'' @ take 8 s2" by simp
  have t1: "truthy (dict_get doc1 ''id'')" using pc1 by (simp add: ident1 path_component_def)
  have t2: "truthy (dict_get doc2 ''id'')" using pc2 by (simp add: ident2 path_component_def)
  have "\<forall>x \<in> set listing1. passes_over lib Map.empty s1 x"
    by (simp add: passes_over_def)
  then have "scan_items lib Map.empty s1 listing1 = Inr None" by (rule scan_items_none)
  with empty pc1 have f1: "find_meeting_dir lib listing1 storage (dict_get doc1 ''id'') = Inr None"
    by (cases storage) (auto simp: find_meeting_dir_def ident1 children_def)
  from slug1 pcs empty have nf1: "new_folder lib doc1 storage (dict_get doc1 ''id'') = Inr slug"
    by (simp add: new_folder_def then_do_def)
  have naf1: "not_a_file (children storage) slug" by (simp add: empty not_a_file_def)
  from save_new[OF t1 f1 nf1 r1 n1 naf1, of force1]
  show "save_meeting lib listing1 doc1 storage td1 force1 =
           Inr (True, Some [slug \<mapsto> Dir (record_files lib doc1 td1 rendered1)])"
    by (simp add: empty dir_files_def)
  define st1 where "st1 = [slug \<mapsto> Dir (record_files lib doc1 td1 rendered1)]"
  from nomatch have f2: "find_meeting_dir lib listing2 (Some st1) (dict_get doc2 ''id'') = Inr None"
    by (simp add: st1_def ident2)
  from slug2 pcs pcx have nf2:
    "new_folder lib doc2 (Some st1) (dict_get doc2 ''id'') = Inr (slug @ ''_'' @ take 8 s2)"
    by (simp add: new_folder_def then_do_def children_def st1_def ident2 slice_upto_def
        py_format_def Let_def)
  have naf2: "not_a_file (children (Some st1)) (slug @ ''_'' @ take 8 s2)"
    by (simp add: not_a_file_def children_def st1_def)
  from save_new[OF t2 f2 nf2 r2 n2 naf2, of force2]
  show "save_meeting lib listing2 doc2
             (Some [slug \<mapsto> Dir (record_files lib doc1 td1 rendered1)]) td2 force2 =
           Inr (True, Some [slug \<mapsto> Dir (record_files lib doc1 td1 rendered1),
                            slug @ ''_'' @ take 8 s2 \<mapsto> Dir (record_files lib doc2 td2 rendered2)])"
    by (simp add: st1_def children_def dir_files_def)
qed

lemmas format_defs = format_transcript_def date_line_def title_line_def separator_line_def
  extract_people_def get_attendee_names_def attendees_line_def join_names_def py_iter_def
  name_and_email_def then_do_def py_or_def dict_get_def dict_get_default_def slice_upto_def
  py_format_def

lemma team_fields_format:
  "format_transcript save_lib ((''id'', i) # team_fields) JNull = Inr team_rendered"
  by (simp add: format_defs team_fields_def team_rendered_def)

lemma retitled_format: "format_transcript save_lib retitled_doc JNull = Inr retitled_rendered"
  by (simp add: format_defs retitled_doc_def retitled_rendered_def)

lemma team_fields_slug: "make_folder_name save_lib ((''id'', i) # team_fields) = Inr team_slug"
  by (simp add: make_folder_name_def team_fields_def team_slug_def dict_get_def py_or_def
      slice_upto_def py_format_def sanitize_filename_def hostile_def strip_dash_def
      rstrip_dash_def dash_or_blank_def space_or_dash_def py_isspace_def)

lemma team_fields_notes: "notes_writable ((''id'', i) # team_fields)"
  by (simp add: notes_writable_def notes_of_def team_fields_def dict_get_def py_or_def)

lemma team_codec:
  "json_load save_lib (json_dump save_lib (metadata_of team_doc)) = Inr (metadata_of team_doc)"
  by (simp add: save_lib_def)

lemma team_slug_component: "path_component team_slug"
  by (simp add: path_component_def team_slug_def)

lemma team_first_save:
  "save_meeting save_lib [] team_doc None JNull False = Inr (True, team_store)"
proof -
  have t: "truthy (dict_get team_doc ''id'')" by (simp add: team_doc_def dict_get_def)
  have f: "find_meeting_dir save_lib [] None (dict_get team_doc ''id'') = Inr None"
    by (simp add: find_meeting_dir_def)
  have n: "new_folder save_lib team_doc None (dict_get team_doc ''id'') = Inr team_slug"
    using team_slug_component
    by (simp add: new_folder_def team_doc_def team_fields_slug then_do_def children_def)
  have r: "format_transcript save_lib team_doc JNull = Inr team_rendered"
    unfolding team_doc_def by (rule team_fields_format)
  have w: "notes_writable team_doc" unfolding team_doc_def by (rule team_fields_notes)
  have a: "not_a_file (children None) team_slug" by (simp add: not_a_file_def children_def)
  from save_new[OF t f n r w a, of False] show ?thesis
    by (simp add: team_store_def children_def dir_files_def)
qed

lemma team_store_children:
  "children team_store team_slug
     = Some (Dir (record_files save_lib team_doc JNull team_rendered))"
  "x \<noteq> team_slug \<Longrightarrow> children team_store x = None"
  "dom (children team_store) = {team_slug}"
  by (simp_all add: team_store_def children_def)

lemma team_store_metadata:
  "load_meeting_metadata save_lib (children team_store) team_slug = Inr (metadata_of team_doc)"
  using record_files_metadata[of Map.empty save_lib team_doc JNull team_rendered]
  by (simp add: load_meeting_metadata_def team_store_children team_codec)

lemma team_store_find:
  "find_meeting_dir save_lib [team_slug] team_store (JStr ''abc123'') = Inr (Some team_slug)"
  "find_meeting_dir save_lib [team_slug] team_store (JStr ''abc'') = Inr (Some team_slug)"
proof -
  have st: "team_store = Some (children team_store)" by (simp add: team_store_def children_def)
  have a: "children team_store ''abc123'' = None" "children team_store ''abc'' = None"
    by (simp_all add: team_store_children team_slug_def)
  have m: "item_matches save_lib (children team_store) team_slug
      (record_files save_lib team_doc JNull team_rendered) s = Inr True"
    if "prefix s ''abc123''" "\<not> sublist s team_slug" for s
    using that team_store_metadata
    by (auto simp: item_matches_def then_do_def metadata_of_def id_startswith_def
        dict_get_default_def team_doc_def dict_get_def)
  have n: "\<not> sublist ''abc123'' team_slug" "\<not> sublist ''abc'' team_slug"
    by (simp_all add: team_slug_def sublist_code(3))
  have "find_meeting_dir save_lib [team_slug] (Some (children team_store)) (JStr ''abc123'')
      = Inr (Some team_slug)"
    using m[of "''abc123''"] n a
    by (simp add: find_meeting_dir_def path_component_def team_store_children then_do_def)
  then show "find_meeting_dir save_lib [team_slug] team_store (JStr ''abc123'') = Inr (Some team_slug)"
    using st by simp
  have "find_meeting_dir save_lib [team_slug] (Some (children team_store)) (JStr ''abc'')
      = Inr (Some team_slug)"
    using m[of "''abc''"] n a
    by (simp add: find_meeting_dir_def path_component_def team_store_children then_do_def)
  then show "find_meeting_dir save_lib [team_slug] team_store (JStr ''abc'') = Inr (Some team_slug)"
    using st by simp
qed

theorem save_unchanged_is_skip_witness:
  "save_meeting save_lib [] team_doc None JNull False = Inr (True, team_store)
   \<and> find_meeting_dir save_lib [team_slug] team_store (JStr ''abc123'') = Inr (Some team_slug)
   \<and> save_meeting save_lib [team_slug] team_doc team_store JNull False = Inr (False, team_store)
   \<and> sync_loop save_lib False [([], team_doc, JNull), ([team_slug], team_doc, JNull)] None
       = Inr (1, 1, team_store)"
proof -
  have ident: "dict_get team_doc ''id'' = JStr ''abc123''" by (simp add: team_doc_def dict_get_def)
  have pc: "path_component ''abc123''" by (simp add: path_component_def)
  have e: "enumerates [] None" by (simp add: enumerates_def children_def)
  have e': "enumerates [team_slug] team_store"
    by (simp add: enumerates_def team_store_children)
  have so: "same_order [] [team_slug]" by (simp add: same_order_def)
  have md: "metadata_of team_doc =
      JObj [(''id'', dict_get team_doc ''id''), (''title'', dict_get team_doc ''title''),
            (''created_at'', dict_get team_doc ''created_at''),
            (''updated_at'', dict_get team_doc ''updated_at''),
            (''people'', dict_get team_doc ''people''),
            (''calendar_event'', dict_get team_doc ''google_calendar_event'')]"
    by (simp add: metadata_of_def)
  have eq: "py_eq (dict_get [(''id'', dict_get team_doc ''id''), (''title'', dict_get team_doc ''title''),
            (''created_at'', dict_get team_doc ''created_at''),
            (''updated_at'', dict_get team_doc ''updated_at''),
            (''people'', dict_get team_doc ''people''),
            (''calendar_event'', dict_get team_doc ''google_calendar_event'')] ''updated_at'')
          (dict_get team_doc ''updated_at'')"
    by (simp add: dict_get_def team_doc_def team_fields_def)
  note part_a = save_unchanged_is_skip[where doc = team_doc and lib = save_lib
      and listing = "[team_slug]" and storage = team_store and d = team_slug and td = JNull
      and md = "[(''id'', dict_get team_doc ''id''), (''title'', dict_get team_doc ''title''),
            (''created_at'', dict_get team_doc ''created_at''),
            (''updated_at'', dict_get team_doc ''updated_at''),
            (''people'', dict_get team_doc ''people''),
            (''calendar_event'', dict_get team_doc ''google_calendar_event'')]",
      THEN conjunct1]
  note part_b = save_unchanged_is_skip[where doc = team_doc and lib = save_lib
      and listing = "[]" and storage = None and td = JNull and force = False
      and storage' = team_store and s = "''abc123''" and listing' = "[team_slug]"
      and td' = JNull and title = "JStr ''Team Sync''", THEN conjunct2]
  have title: "progress_title team_doc = Inr (JStr ''Team Sync'')"
    by (simp add: progress_title_def slice_upto_def py_or_def team_doc_def team_fields_def
        dict_get_def)
  from part_a team_store_find(1) team_store_metadata md eq ident
  have a: "save_meeting save_lib [team_slug] team_doc team_store JNull False = Inr (False, team_store)"
    by simp
  from part_b team_first_save ident pc team_codec e e' so title
  have b: "save_meeting save_lib [team_slug] team_doc team_store JNull False = Inr (False, team_store)
      \<and> sync_loop save_lib False [([], team_doc, JNull), ([team_slug], team_doc, JNull)] None
          = Inr (1, 1, team_store)"
    by simp
  from a b team_first_save team_store_find(1) show ?thesis by simp
qed













lemma retitled_second_save:
  "save_meeting save_lib [team_slug] retitled_doc team_store JNull False = Inr (True, retitled_store)"
proof -
  have i: "dict_get retitled_doc ''id'' = JStr ''abc123''"
    by (simp add: retitled_doc_def dict_get_def)
  have t: "truthy (dict_get retitled_doc ''id'')" by (simp add: i)
  have f: "find_meeting_dir save_lib [team_slug] team_store (dict_get retitled_doc ''id'')
      = Inr (Some team_slug)"
    by (simp add: i team_store_find)
  have u: "False \<or> unchanged save_lib (children team_store) team_slug retitled_doc = Inr False"
    by (simp add: unchanged_def then_do_def team_store_metadata metadata_of_def dict_get_def
        team_doc_def team_fields_def retitled_doc_def)
  have w: "notes_writable retitled_doc"
    by (simp add: notes_writable_def notes_of_def retitled_doc_def dict_get_def py_or_def)
  from save_overwrites[OF t f team_store_children(1) u retitled_format w] show ?thesis
    by (simp add: retitled_store_def team_store_def children_def)
qed

lemma retitled_codec:
  "json_load save_lib (json_dump save_lib (metadata_of retitled_doc))
     = Inr (metadata_of retitled_doc)"
  by (simp add: save_lib_def metadata_of_def retitled_doc_def team_doc_def team_fields_def
      dict_get_def)

theorem directory_name_is_sticky_witness:
  "make_folder_name save_lib retitled_doc = Inr ''2025-01-15_Renamed-Sync''
   \<and> save_meeting save_lib [] team_doc None JNull False = Inr (True, team_store)
   \<and> sync_loop save_lib False [([team_slug], retitled_doc, JNull)] team_store
       = Inr (1, 0, retitled_store)
   \<and> find_meeting_dir save_lib [team_slug] retitled_store (JStr ''abc123'')
       = Inr (Some team_slug)
   \<and> dom (children retitled_store) = {team_slug}"
proof -
  have ident1: "dict_get team_doc ''id'' = JStr ''abc123''" by (simp add: team_doc_def dict_get_def)
  have ident2: "dict_get retitled_doc ''id'' = JStr ''abc123''"
    by (simp add: retitled_doc_def dict_get_def)
  have pc: "path_component ''abc123''" by (simp add: path_component_def)
  have e: "enumerates [] None" by (simp add: enumerates_def children_def)
  have e': "enumerates [team_slug] team_store"
    by (simp add: enumerates_def team_store_children)
  have so: "same_order [] [team_slug]" by (simp add: same_order_def)
  have later: "\<forall>(l, doc', td') \<in> set [([team_slug], retitled_doc, JNull)].
      l = [team_slug] \<and> dict_get doc' ''id'' = JStr ''abc123''
      \<and> json_load save_lib (json_dump save_lib (metadata_of doc')) = Inr (metadata_of doc')"
    by (simp add: ident2 retitled_codec)
  have run: "sync_loop save_lib False [([team_slug], retitled_doc, JNull)] team_store
      = Inr (1, 0, retitled_store)"
  proof -
    have "progress_title retitled_doc = Inr (JStr ''Renamed Sync'')"
      by (simp add: progress_title_def slice_upto_def py_or_def retitled_doc_def dict_get_def)
    then show ?thesis by (simp add: retitled_second_save then_do_def)
  qed
  from directory_name_is_sticky[OF team_first_save ident1 pc team_codec e e' so later run]
  obtain d where
    d1: "find_meeting_dir save_lib [team_slug] team_store (JStr ''abc123'') = Inr (Some d)"
    and dn: "find_meeting_dir save_lib [team_slug] retitled_store (JStr ''abc123'') = Inr (Some d)"
    and dom: "dom (children retitled_store) = dom (children team_store)"
    by blast
  from d1 have "d = team_slug" by (simp add: team_store_find)
  with dn have found: "find_meeting_dir save_lib [team_slug] retitled_store (JStr ''abc123'')
      = Inr (Some team_slug)" by simp
  have m: "make_folder_name save_lib retitled_doc = Inr ''2025-01-15_Renamed-Sync''"
    by (simp add: make_folder_name_def retitled_doc_def dict_get_def py_or_def
      slice_upto_def py_format_def sanitize_filename_def hostile_def strip_dash_def
      rstrip_dash_def dash_or_blank_def space_or_dash_def py_isspace_def)
  from m team_first_save run found dom show ?thesis by (simp add: team_store_children)
qed

theorem collision_gets_id_suffix_witness:
  "save_meeting save_lib [] team_doc None JNull False =
     Inr (True, Some [team_slug \<mapsto> Dir (record_files save_lib team_doc JNull team_rendered)])
   \<and> save_meeting save_lib [team_slug] other_doc
        (Some [team_slug \<mapsto> Dir (record_files save_lib team_doc JNull team_rendered)]) JNull False =
     Inr (True, Some [team_slug \<mapsto> Dir (record_files save_lib team_doc JNull team_rendered),
                      team_slug @ ''_xyz789'' \<mapsto>
                        Dir (record_files save_lib other_doc JNull team_rendered)])"
proof -
  have empty: "children None = Map.empty" by (simp add: children_def)
  have ident1: "dict_get team_doc ''id'' = JStr ''abc123''" by (simp add: team_doc_def dict_get_def)
  have ident2: "dict_get other_doc ''id'' = JStr ''xyz789''" by (simp add: other_doc_def dict_get_def)
  have pc1: "path_component ''abc123''" by (simp add: path_component_def)
  have pc2: "path_component ''xyz789''" by (simp add: path_component_def)
  have slug1: "make_folder_name save_lib team_doc = Inr team_slug"
    unfolding team_doc_def by (rule team_fields_slug)
  have slug2: "make_folder_name save_lib other_doc = Inr team_slug"
    unfolding other_doc_def by (rule team_fields_slug)
  have pcx: "path_component (team_slug @ ''_'' @ take 8 ''xyz789'')"
    by (simp add: path_component_def team_slug_def)
  have r1: "format_transcript save_lib team_doc JNull = Inr team_rendered"
    unfolding team_doc_def by (rule team_fields_format)
  have r2: "format_transcript save_lib other_doc JNull = Inr team_rendered"
    unfolding other_doc_def by (rule team_fields_format)
  have n1: "notes_writable team_doc" unfolding team_doc_def by (rule team_fields_notes)
  have n2: "notes_writable other_doc" unfolding other_doc_def by (rule team_fields_notes)
  have doc_text: "json_dump save_lib (JObj team_doc) = ''json''"
    by (simp add: save_lib_def metadata_of_def team_doc_def team_fields_def)
  have files: "record_files save_lib team_doc JNull team_rendered ''document.json'' = Some ''json''"
    "record_files save_lib team_doc JNull team_rendered ''metadata.json''
       = Some ''metadata of abc123''"
    using record_files_document[of Map.empty save_lib team_doc JNull team_rendered]
      record_files_metadata[of Map.empty save_lib team_doc JNull team_rendered]
    by (simp_all add: doc_text) (simp add: save_lib_def)
  have doc_load: "json_load save_lib ''json'' = Inl JSONDecodeError"
    by (simp add: save_lib_def)
  have ns: "\<not> sublist ''xyz789'' team_slug"
    by (simp add: team_slug_def sublist_code(3))
  have m: "item_matches save_lib (children team_store) team_slug
      (record_files save_lib team_doc JNull team_rendered) ''xyz789'' = Inr False"
    using files(1) doc_load team_store_metadata ns
    by (auto simp: item_matches_def then_do_def metadata_of_def id_startswith_def
        dict_get_default_def team_doc_def dict_get_def caught_def)
  have none: "children team_store ''xyz789'' = None"
    by (simp add: team_store_children team_slug_def)
  have "find_meeting_dir save_lib [team_slug] (Some (children team_store)) (JStr ''xyz789'')
      = Inr None"
    using m none
    by (simp add: find_meeting_dir_def path_component_def team_store_children then_do_def)
  then have nomatch: "find_meeting_dir save_lib [team_slug]
      (Some [team_slug \<mapsto> Dir (record_files save_lib team_doc JNull team_rendered)])
      (JStr ''xyz789'') = Inr None"
    by (simp add: team_store_def children_def)
  from collision_gets_id_suffix[OF empty ident1 pc1 ident2 pc2 slug1 slug2 team_slug_component
      pcx r1 n1 r2 n2 nomatch, of "[]" False False]
  show ?thesis by simp
qed

text \<open>
  Claim C6 as stated fails: two documents with distinct ids and the same slug, the
  id of the second a prefix of the id of the first. The resolver finds the first
  document's directory for the second id, the second save is skipped, and the store
  holds one directory.
\<close>

theorem collision_resolves_to_first_directory:
  "dict_get team_doc ''id'' \<noteq> dict_get prefix_doc ''id''
   \<and> make_folder_name save_lib team_doc = make_folder_name save_lib prefix_doc
   \<and> save_meeting save_lib [] team_doc None JNull False = Inr (True, team_store)
   \<and> find_meeting_dir save_lib [team_slug] team_store (dict_get prefix_doc ''id'')
       = Inr (Some team_slug)
   \<and> save_meeting save_lib [team_slug] prefix_doc team_store JNull False = Inr (False, team_store)
   \<and> dom (children team_store) = {team_slug}"
proof -
  have i: "dict_get prefix_doc ''id'' = JStr ''abc''" by (simp add: prefix_doc_def dict_get_def)
  have ne: "dict_get team_doc ''id'' \<noteq> dict_get prefix_doc ''id''"
    by (simp add: team_doc_def prefix_doc_def dict_get_def)
  have slugs: "make_folder_name save_lib team_doc = make_folder_name save_lib prefix_doc"
    by (simp add: team_doc_def prefix_doc_def team_fields_slug)
  have f: "find_meeting_dir save_lib [team_slug] team_store (dict_get prefix_doc ''id'')
       = Inr (Some team_slug)"
    by (simp add: i team_store_find)
  have u: "unchanged save_lib (children team_store) team_slug prefix_doc = Inr True"
    by (simp add: unchanged_def then_do_def team_store_metadata metadata_of_def dict_get_def
        team_doc_def team_fields_def prefix_doc_def)
  from f u i have "save_meeting save_lib [team_slug] prefix_doc team_store JNull False
      = Inr (False, team_store)"
    by (simp add: save_meeting_def then_do_def Let_def)
  with ne slugs team_first_save f team_store_children(3) show ?thesis by simp
qed

section \<open>Filtering and search: verified properties\<close>

lemma keeps_all_pass:
  "keeps rt target_date target_start target_end title participant m =
     then_do (get_meeting_date rt m)
       (\<lambda>meeting_date.
          all_pass [Inr (\<not> excluded (\<lambda>d t. d \<noteq> t) target_date meeting_date),
                    Inr (\<not> excluded (\<lambda>d t. d < t) target_start meeting_date),
                    Inr (\<not> excluded (\<lambda>d t. d > t) target_end meeting_date),
                    when_given title
                      (\<lambda>pattern. re_search rt pattern (dict_get_default m ''title'' (JStr []))),
                    when_given participant
                      (\<lambda>query. matches_participant (dict_get m ''people'') query)])"
  by (cases "get_meeting_date rt m") (auto simp: keeps_def then_do_def split: sum.splits)

lemma all_pass_merged:
  assumes "merged a b c"
    and "\<And>ka kb. all_pass as = Inr ka \<Longrightarrow> all_pass bs = Inr kb \<Longrightarrow> all_pass cs = Inr (ka \<and> kb)"
    and "all_pass (a # as) = Inr ka" and "all_pass (b # bs) = Inr kb"
  shows "all_pass (c # cs) = Inr (ka \<and> kb)"
  using assms by (auto simp: merged_def split: sum.splits if_splits)

lemma all_pass_merged_all:
  "merged_all as bs cs \<Longrightarrow> all_pass as = Inr ka \<Longrightarrow> all_pass bs = Inr kb
     \<Longrightarrow> all_pass cs = Inr (ka \<and> kb)"
proof (induction as bs cs arbitrary: ka kb rule: merged_all.induct)
  case 1
  then show ?case by simp
next
  case (2 a as b bs c cs)
  from 2(2) have m: "merged a b c" and rest: "merged_all as bs cs" by simp_all
  show ?case
    using m 2(1)[OF rest] 2(3) 2(4) by (rule all_pass_merged)
qed simp_all

lemma merged_when_not_given:
  assumes "\<And>x. \<not> given x \<Longrightarrow> check x = Inr True" and "compatible a b"
  shows "merged (check a) (check b) (check (merge_arg a b))"
  using assms by (auto simp: merged_def merge_arg_def compatible_def)

lemma keeps_merge:
  assumes c: "compatible on1 on2" "compatible st1 st2" "compatible en1 en2"
      "compatible ti1 ti2" "compatible pa1 pa2"
    and k1: "keeps rt (target_of rt on1) (target_of rt st1) (target_of rt en1) ti1 pa1 m = Inr k1"
    and k2: "keeps rt (target_of rt on2) (target_of rt st2) (target_of rt en2) ti2 pa2 m = Inr k2"
  shows "keeps rt (target_of rt (merge_arg on1 on2)) (target_of rt (merge_arg st1 st2))
           (target_of rt (merge_arg en1 en2)) (merge_arg ti1 ti2) (merge_arg pa1 pa2) m
         = Inr (k1 \<and> k2)"
proof -
  from k1 obtain md where md: "get_meeting_date rt m = Inr md"
    by (cases "get_meeting_date rt m") (auto simp: keeps_def then_do_def)
  have t: "\<And>x. \<not> given x \<Longrightarrow> target_of rt x = None"
    by (auto simp: given_def target_of_def split: option.splits)
  have m1: "merged (Inr (\<not> excluded (\<lambda>d t. d \<noteq> t) (target_of rt on1) md))
                   (Inr (\<not> excluded (\<lambda>d t. d \<noteq> t) (target_of rt on2) md))
                   (Inr (\<not> excluded (\<lambda>d t. d \<noteq> t) (target_of rt (merge_arg on1 on2)) md))"
    by (rule merged_when_not_given[where check = "\<lambda>x. Inr (\<not> excluded (\<lambda>d t. d \<noteq> t) (target_of rt x) md)"])
       (simp_all add: t excluded_def c)
  have m2: "merged (Inr (\<not> excluded (\<lambda>d t. d < t) (target_of rt st1) md))
                   (Inr (\<not> excluded (\<lambda>d t. d < t) (target_of rt st2) md))
                   (Inr (\<not> excluded (\<lambda>d t. d < t) (target_of rt (merge_arg st1 st2)) md))"
    by (rule merged_when_not_given[where check = "\<lambda>x. Inr (\<not> excluded (\<lambda>d t. d < t) (target_of rt x) md)"])
       (simp_all add: t excluded_def c)
  have m3: "merged (Inr (\<not> excluded (\<lambda>d t. d > t) (target_of rt en1) md))
                   (Inr (\<not> excluded (\<lambda>d t. d > t) (target_of rt en2) md))
                   (Inr (\<not> excluded (\<lambda>d t. d > t) (target_of rt (merge_arg en1 en2)) md))"
    by (rule merged_when_not_given[where check = "\<lambda>x. Inr (\<not> excluded (\<lambda>d t. d > t) (target_of rt x) md)"])
       (simp_all add: t excluded_def c)
  have w: "\<And>x f. \<not> given x \<Longrightarrow> when_given x f = Inr True"
    by (auto simp: given_def when_given_def split: option.splits)
  have m4: "merged
      (when_given ti1 (\<lambda>pattern. re_search rt pattern (dict_get_default m ''title'' (JStr []))))
      (when_given ti2 (\<lambda>pattern. re_search rt pattern (dict_get_default m ''title'' (JStr []))))
      (when_given (merge_arg ti1 ti2)
         (\<lambda>pattern. re_search rt pattern (dict_get_default m ''title'' (JStr []))))"
    by (rule merged_when_not_given[where check = "\<lambda>x. when_given x
           (\<lambda>pattern. re_search rt pattern (dict_get_default m ''title'' (JStr [])))"])
       (simp_all add: w c)
  have m5: "merged
      (when_given pa1 (\<lambda>query. matches_participant (dict_get m ''people'') query))
      (when_given pa2 (\<lambda>query. matches_participant (dict_get m ''people'') query))
      (when_given (merge_arg pa1 pa2) (\<lambda>query. matches_participant (dict_get m ''people'') query))"
    by (rule merged_when_not_given[where check = "\<lambda>x. when_given x
           (\<lambda>query. matches_participant (dict_get m ''people'') query)"])
       (simp_all add: w c)
  have "merged_all
      [Inr (\<not> excluded (\<lambda>d t. d \<noteq> t) (target_of rt on1) md),
       Inr (\<not> excluded (\<lambda>d t. d < t) (target_of rt st1) md),
       Inr (\<not> excluded (\<lambda>d t. d > t) (target_of rt en1) md),
       when_given ti1 (\<lambda>pattern. re_search rt pattern (dict_get_default m ''title'' (JStr []))),
       when_given pa1 (\<lambda>query. matches_participant (dict_get m ''people'') query)]
      [Inr (\<not> excluded (\<lambda>d t. d \<noteq> t) (target_of rt on2) md),
       Inr (\<not> excluded (\<lambda>d t. d < t) (target_of rt st2) md),
       Inr (\<not> excluded (\<lambda>d t. d > t) (target_of rt en2) md),
       when_given ti2 (\<lambda>pattern. re_search rt pattern (dict_get_default m ''title'' (JStr []))),
       when_given pa2 (\<lambda>query. matches_participant (dict_get m ''people'') query)]
      [Inr (\<not> excluded (\<lambda>d t. d \<noteq> t) (target_of rt (merge_arg on1 on2)) md),
       Inr (\<not> excluded (\<lambda>d t. d < t) (target_of rt (merge_arg st1 st2)) md),
       Inr (\<not> excluded (\<lambda>d t. d > t) (target_of rt (merge_arg en1 en2)) md),
       when_given (merge_arg ti1 ti2)
         (\<lambda>pattern. re_search rt pattern (dict_get_default m ''title'' (JStr []))),
       when_given (merge_arg pa1 pa2)
         (\<lambda>query. matches_participant (dict_get m ''people'') query)]"
    using m1 m2 m3 m4 m5 by simp
  from this k1 k2 show ?thesis
    unfolding keeps_all_pass md then_do_def sum.case
    by (rule all_pass_merged_all)
qed

lemma filter_loop_returns:
  "filter_loop keep meetings = Inr results \<Longrightarrow>
     results = filter (\<lambda>m. keep m = Inr True) meetings
     \<and> (\<forall>m \<in> set meetings. \<exists>kept. keep m = Inr kept)"
proof (induction meetings arbitrary: results)
  case Nil
  then show ?case by simp
next
  case (Cons m meetings)
  from Cons.prems obtain kept rest where k: "keep m = Inr kept"
    and r: "filter_loop keep meetings = Inr rest"
    and res: "results = (if kept then m # rest else rest)"
    by (cases "keep m"; cases "filter_loop keep meetings") (auto simp: then_do_def)
  from Cons.IH[OF r] k res show ?case by auto
qed

lemma filter_loop_total:
  "\<forall>m \<in> set meetings. \<exists>kept. keep m = Inr kept \<Longrightarrow>
     filter_loop keep meetings = Inr (filter (\<lambda>m. keep m = Inr True) meetings)"
  by (induction meetings) (auto simp: then_do_def)

text \<open>
  Claim C7. When two calls of the filter on the same meetings with compatible
  arguments both return, the call with the predicates of both returns too, and its
  result is the list of the meetings, in input order, that are in both results.
  Any of the five arguments (date, start, end, title, participant) may be given in
  either call.
\<close>

theorem filter_composition:
  assumes c: "compatible on1 on2" "compatible st1 st2" "compatible en1 en2"
      "compatible ti1 ti2" "compatible pa1 pa2"
    and r1: "filter_meetings rt meetings on1 st1 en1 ti1 pa1 = Inr results1"
    and r2: "filter_meetings rt meetings on2 st2 en2 ti2 pa2 = Inr results2"
  shows "filter_meetings rt meetings (merge_arg on1 on2) (merge_arg st1 st2) (merge_arg en1 en2)
           (merge_arg ti1 ti2) (merge_arg pa1 pa2)
         = Inr (filter (\<lambda>m. m \<in> set results1 \<and> m \<in> set results2) meetings)"
proof -
  define keep1 where
    "keep1 = keeps rt (target_of rt on1) (target_of rt st1) (target_of rt en1) ti1 pa1"
  define keep2 where
    "keep2 = keeps rt (target_of rt on2) (target_of rt st2) (target_of rt en2) ti2 pa2"
  define keep where
    "keep = keeps rt (target_of rt (merge_arg on1 on2)) (target_of rt (merge_arg st1 st2))
              (target_of rt (merge_arg en1 en2)) (merge_arg ti1 ti2) (merge_arg pa1 pa2)"
  from r1 have l1: "filter_loop keep1 meetings = Inr results1"
    by (simp add: filter_meetings_def keep1_def Let_def)
  from r2 have l2: "filter_loop keep2 meetings = Inr results2"
    by (simp add: filter_meetings_def keep2_def Let_def)
  note f1 = filter_loop_returns[OF l1] and f2 = filter_loop_returns[OF l2]
  have both: "keep m = Inr (keep1 m = Inr True \<and> keep2 m = Inr True)" if "m \<in> set meetings" for m
  proof -
    from f1 that obtain k1 where k1: "keep1 m = Inr k1" by blast
    from f2 that obtain k2 where k2: "keep2 m = Inr k2" by blast
    from keeps_merge[OF c k1[unfolded keep1_def] k2[unfolded keep2_def]] k1 k2
    show ?thesis by (simp add: keep_def)
  qed
  then have "\<forall>m \<in> set meetings. \<exists>kept. keep m = Inr kept" by blast
  from filter_loop_total[OF this]
  have "filter_loop keep meetings = Inr (filter (\<lambda>m. keep m = Inr True) meetings)" .
  also have "filter (\<lambda>m. keep m = Inr True) meetings
      = filter (\<lambda>m. m \<in> set results1 \<and> m \<in> set results2) meetings"
    using both f1 f2 by (intro filter_cong) auto
  finally show ?thesis by (simp add: filter_meetings_def keep_def Let_def)
qed

lemmas filter_defs = filter_meetings_def keeps_def target_of_def get_meeting_date_def
  slice_upto_def dict_get_default_def dict_get_def then_do_def excluded_def when_given_def
  re_search_def matches_participant_def extract_people_def py_or_def py_iter_def
  name_and_email_def example_rt_def py_lower_def standup_alice_def standup_bob_def
  retro_alice_def sublist_code(3)

lemma filter_by_title_example:
  "filter_meetings example_rt [standup_alice, standup_bob, retro_alice]
     None None None (Some ''standup'') None = Inr [standup_alice, standup_bob]"
  by code_simp

lemma filter_by_participant_example:
  "filter_meetings example_rt [standup_alice, standup_bob, retro_alice]
     None None None None (Some ''ALICE'') = Inr [standup_alice, retro_alice]"
  by code_simp

theorem filter_composition_witness:
  "filter_meetings example_rt [standup_alice, standup_bob, retro_alice]
     None None None (Some ''standup'') (Some ''ALICE'') = Inr [standup_alice]"
proof -
  have c: "compatible None None" "compatible (Some ''standup'') None"
    "compatible None (Some ''ALICE'')"
    by (simp_all add: compatible_def given_def)
  have ne: "standup_bob \<noteq> standup_alice" "retro_alice \<noteq> standup_alice"
    "retro_alice \<noteq> standup_bob"
    by (simp_all add: standup_alice_def standup_bob_def retro_alice_def)
  from filter_composition[OF c(1) c(1) c(1) c(2) c(3)
      filter_by_title_example filter_by_participant_example] ne
  show ?thesis by (simp add: merge_arg_def given_def)
qed

lemma filter_by_start_example:
  "filter_meetings example_rt [standup_alice, standup_bob, retro_alice]
     None (Some '' 2025-01-20 '') None None None = Inr [standup_bob, retro_alice]"
  by code_simp

lemma drop_take_nth:
  assumes "b \<le> length xs"
  shows "drop a (take b xs) = map (\<lambda>j. xs ! j) [a..<b]"
proof -
  from assms have len: "length (take b xs) = b" by simp
  have "take b xs = map (\<lambda>j. take b xs ! j) [0..<b]"
    using map_nth[of "take b xs"] len by simp
  then have "drop a (take b xs) = drop a (map (\<lambda>j. take b xs ! j) [0..<b])" by simp
  also have "\<dots> = map (\<lambda>j. take b xs ! j) [a..<b]" by (simp add: drop_map)
  also have "\<dots> = map (\<lambda>j. xs ! j) [a..<b]" by simp
  finally show ?thesis .
qed

lemma py_slice_context:
  assumes "0 < context" and "i < length lines"
  shows "py_slice lines (max 0 (int i - context)) (min (int (length lines)) (int i + context + 1))
         = map (\<lambda>j. lines ! j) [i - nat context ..< min (length lines) (i + nat context + 1)]"
proof -
  have lo: "nat (min (max 0 (int i - context)) (int (length lines))) = i - nat context"
    using assms by auto
  have hi: "nat (min (min (int (length lines)) (int i + context + 1)) (int (length lines)))
      = min (length lines) (i + nat context + 1)"
    using assms by auto
  have nonneg: "\<not> max 0 (int i - context) < 0"
    "\<not> min (int (length lines)) (int i + context + 1) < 0"
    using assms by auto
  have "map (\<lambda>j. lines ! j) [i - nat context ..< min (length lines) (i + nat context + 1)]
      = drop (i - nat context) (take (min (length lines) (i + nat context + 1)) lines)"
    by (rule drop_take_nth[symmetric]) simp
  then show ?thesis
    unfolding py_slice_def Let_def by (simp only: nonneg if_False lo hi)
qed

lemma match_entry_spec:
  "i < length lines \<Longrightarrow> match_entry context lines i (lines ! i) = match_spec context lines i"
  using py_slice_context[of "context" i lines]
  by (simp add: match_entry_def match_spec_def context_spec_def Let_def)

lemma search_loop_spec:
  "rest = drop i lines \<Longrightarrow>
   search_loop matcher context lines i rest
     = map (match_spec context lines) (filter (\<lambda>j. matcher (lines ! j)) [i..<length lines])"
proof (induction rest arbitrary: i)
  case Nil
  then show ?case by simp
next
  case (Cons line rest)
  from Cons.prems have i: "i < length lines"
    by (metis drop_all leI list.distinct(1))
  from Cons.prems i have line: "line = lines ! i" and rest: "rest = drop (Suc i) lines"
    by (simp_all add: Cons_nth_drop_Suc[symmetric])
  from Cons.IH[OF rest] i show ?case
    by (simp add: line match_entry_spec upt_conv_Cons)
qed

text \<open>
  Claim C8. The matches of one transcript are, in order, one entry for each line the
  pattern finds: its line number counted from one, the trimmed line, and the context
  of the specification, which is absent unless the number of context lines is
  positive. With two context lines in a file of ten lines the context of a match on
  line 5 is lines 3 to 7, and of a match on line 1 lines 1 to 3.
\<close>

theorem search_records_line_text_context:
  "transcript_matches matcher context body =
     map (match_spec context (split_lines body))
       (filter (\<lambda>j. matcher (split_lines body ! j)) [0..<length (split_lines body)])
   \<and> (length lines = 10 \<longrightarrow>
        context_spec 2 lines 4
          = join [newline] [lines ! 2, lines ! 3, lines ! 4, lines ! 5, lines ! 6]
        \<and> context_spec 2 lines 0 = join [newline] [lines ! 0, lines ! 1, lines ! 2])"
proof (intro conjI impI)
  show "transcript_matches matcher context body =
     map (match_spec context (split_lines body))
       (filter (\<lambda>j. matcher (split_lines body ! j)) [0..<length (split_lines body)])"
    unfolding transcript_matches_def Let_def by (rule search_loop_spec) simp
next
  assume len: "length lines = 10"
  have "[4 - 2 ..< min (length lines) (4 + 2 + 1)] = [2, 3, 4, 5, 6 :: nat]"
    unfolding len by (simp add: upt_rec)
  then show "context_spec 2 lines 4
      = join [newline] [lines ! 2, lines ! 3, lines ! 4, lines ! 5, lines ! 6]"
    by (simp add: context_spec_def)
next
  assume len: "length lines = 10"
  have "[0 - 2 ..< min (length lines) (0 + 2 + 1)] = [0, 1, 2 :: nat]"
    unfolding len by (simp add: upt_rec)
  then show "context_spec 2 lines 0 = join [newline] [lines ! 0, lines ! 1, lines ! 2]"
    by (simp add: context_spec_def)
qed

lemma ten_body_lines: "split_lines ten_body = ten_lines"
  by (simp add: ten_body_def ten_lines_def newline_def)

theorem search_records_line_text_context_witness:
  "length (split_lines ten_body) = 10
   \<and> transcript_matches (sublist ''hit'') 2 ten_body =
       [JObj [(''line'', JNum 1), (''text'', JStr ''hit one''),
              (''context'', JStr (join [newline] [''hit one'', ''l2'', ''l3'']))],
        JObj [(''line'', JNum 5), (''text'', JStr ''hit five''),
              (''context'', JStr (join [newline] [''l3'', ''l4'', ''  hit five '', ''l6'', ''l7'']))]]
   \<and> transcript_matches (sublist ''hit'') 0 ten_body =
       [JObj [(''line'', JNum 1), (''text'', JStr ''hit one''), (''context'', JNull)],
        JObj [(''line'', JNum 5), (''text'', JStr ''hit five''), (''context'', JNull)]]"
proof -
  have len: "length (split_lines ten_body) = 10" by (simp add: ten_body_lines ten_lines_def)
  have hits: "filter (\<lambda>j. sublist ''hit'' (ten_lines ! j)) [0..<10] = [0, 4]"
    by (simp add: ten_lines_def upt_rec sublist_code(3))
  have strip: "py_strip (ten_lines ! 0) = ''hit one''" "py_strip (ten_lines ! 4) = ''hit five''"
    by (simp_all add: ten_lines_def py_strip_def py_isspace_def)
  note thm2 = search_records_line_text_context[of "sublist ''hit''" 2 ten_body "split_lines ten_body"]
  note thm0 = search_records_line_text_context[of "sublist ''hit''" 0 ten_body "split_lines ten_body"]
  from thm2 len have ctx:
    "context_spec 2 ten_lines 4
       = join [newline] [ten_lines ! 2, ten_lines ! 3, ten_lines ! 4, ten_lines ! 5, ten_lines ! 6]"
    "context_spec 2 ten_lines 0 = join [newline] [ten_lines ! 0, ten_lines ! 1, ten_lines ! 2]"
    by (simp_all add: ten_body_lines)
  from thm2 have m2: "transcript_matches (sublist ''hit'') 2 ten_body =
      map (match_spec 2 ten_lines) [0, 4]"
    using hits len by (simp add: ten_body_lines)
  from thm0 have m0: "transcript_matches (sublist ''hit'') 0 ten_body =
      map (match_spec 0 ten_lines) [0, 4]"
    using hits len by (simp add: ten_body_lines)
  have e2: "match_spec 2 ten_lines 0 =
        JObj [(''line'', JNum 1), (''text'', JStr ''hit one''),
              (''context'', JStr (join [newline] [''hit one'', ''l2'', ''l3'']))]"
      "match_spec 2 ten_lines 4 =
        JObj [(''line'', JNum 5), (''text'', JStr ''hit five''),
              (''context'', JStr (join [newline] [''l3'', ''l4'', ''  hit five '', ''l6'', ''l7'']))]"
    unfolding match_spec_def strip by (simp_all add: ctx) (simp_all add: ten_lines_def)
  have e0: "match_spec 0 ten_lines 0 =
        JObj [(''line'', JNum 1), (''text'', JStr ''hit one''), (''context'', JNull)]"
      "match_spec 0 ten_lines 4 =
        JObj [(''line'', JNum 5), (''text'', JStr ''hit five''), (''context'', JNull)]"
    unfolding match_spec_def strip by simp_all
  from len m2 m0 e2 e0 show ?thesis by simp
qed

end
